theory Spec2Isabelle
  imports Complex_Main "HOL-Library.Multiset" "HOL-Library.AList"
begin

section \<open>JavaScript numbers\<close>

text \<open>
  A rarity is a JavaScript number: a form field read with \<^verbatim>\<open>parseFloat\<close>, which gives
  \<^verbatim>\<open>NaN\<close> for an empty field. The sampler adds rarities and compares the sum with the
  drawn fraction, so the model carries IEEE 754 binary64 values: a finite value is the
  rational it denotes, and every operation rounds its exact result to the nearest double,
  ties to the even significand. The two zeros are one value.
\<close>

datatype jsnum = Num rat | PosInf | NegInf | NaN

definition roundHalfEven :: "rat \<Rightarrow> int" where
  "roundHalfEven x =
     (let f = \<lfloor>x\<rfloor>; d = x - of_int f
      in if d < 1 / 2 then f else if 1 / 2 < d then f + 1 else if even f then f else f + 1)"

text \<open>
  The distance between neighbouring doubles at a magnitude \<open>x\<close>: \<open>2 ^ (e - 52)\<close> where
  \<open>2 ^ e \<le> x < 2 ^ (e + 1)\<close>, and \<open>2 ^ (- 1074)\<close> from the smallest normal number down.
  Below 1 the magnitude is doubled until it reaches 1, at most 1022 times; from 2 on it is
  halved until it is below 2.
\<close>

function binadeDown :: "nat \<Rightarrow> rat \<Rightarrow> rat \<Rightarrow> rat" where
  "binadeDown n x q = (if n = 0 \<or> 1 \<le> x then q else binadeDown (n - 1) (2 * x) (q / 2))"
  by pat_completeness auto
termination
  by (relation "measure (\<lambda>(n, x, q). n)") auto

function binadeUp :: "rat \<Rightarrow> rat \<Rightarrow> rat" where
  "binadeUp x q = (if x < 2 then q else binadeUp (x / 2) (2 * q))"
  by pat_completeness auto
termination
proof (relation "measure (\<lambda>(x, q). nat \<lfloor>x\<rfloor>)")
  show "wf (measure (\<lambda>(x, q). nat \<lfloor>x\<rfloor>))" by simp
next
  fix x q :: rat
  assume "\<not> x < 2"
  then have x: "2 \<le> x" by simp
  then have "x / 2 \<le> x - 1" by simp
  then have "\<lfloor>x / 2\<rfloor> \<le> \<lfloor>x - 1\<rfloor>" by (rule floor_mono)
  moreover have "\<lfloor>x - 1\<rfloor> = \<lfloor>x\<rfloor> - 1" by simp
  moreover have "2 \<le> \<lfloor>x\<rfloor>" using x by (simp add: le_floor_iff)
  ultimately show "((x / 2, 2 * q), (x, q)) \<in> measure (\<lambda>(x, q). nat \<lfloor>x\<rfloor>)"
    by simp
qed

declare binadeDown.simps [simp del]

declare binadeUp.simps [simp del]

definition ulp :: "rat \<Rightarrow> rat" where
  "ulp x = (if 1 \<le> x then binadeUp x (1 / 2 ^ 52) else binadeDown 1022 x (1 / 2 ^ 52))"

text \<open>
  Rounding an exact result to a double. A result of magnitude \<open>2 ^ 1024\<close> or more after
  rounding is an infinity.
\<close>

definition roundD :: "rat \<Rightarrow> jsnum" where
  "roundD x =
     (let q = ulp \<bar>x\<bar>; y = of_int (roundHalfEven (x / q)) * q
      in if 2 ^ 1024 \<le> y then PosInf else if y \<le> - (2 ^ 1024) then NegInf else Num y)"

text \<open>The operators \<^verbatim>\<open>+\<close> and \<^verbatim>\<open><=\<close> on numbers.\<close>

fun jsAdd :: "jsnum \<Rightarrow> jsnum \<Rightarrow> jsnum" where
  "jsAdd NaN b = NaN"
| "jsAdd a NaN = NaN"
| "jsAdd PosInf NegInf = NaN"
| "jsAdd NegInf PosInf = NaN"
| "jsAdd PosInf b = PosInf"
| "jsAdd a PosInf = PosInf"
| "jsAdd NegInf b = NegInf"
| "jsAdd a NegInf = NegInf"
| "jsAdd (Num a) (Num b) = roundD (a + b)"

fun jsLe :: "jsnum \<Rightarrow> jsnum \<Rightarrow> bool" where
  "jsLe NaN b = False"
| "jsLe a NaN = False"
| "jsLe NegInf b = True"
| "jsLe a PosInf = True"
| "jsLe PosInf b = False"
| "jsLe a NegInf = False"
| "jsLe (Num a) (Num b) = (a \<le> b)"

section \<open>Data model\<close>

text \<open>
  The generation engine of \<^verbatim>\<open>functions/src/ArtworkGenerator.ts\<close>. The model classes come
  from \<^verbatim>\<open>../models/models\<close>; the records below carry the fields the generator reads
  or writes. Field names are prefixed, since a record field is a global constant.
  Rarities are JavaScript numbers, z-indices are integers, ids are strings,
  and a JavaScript \<^verbatim>\<open>null\<close> or \<^verbatim>\<open>undefined\<close> is \<open>None\<close>.
\<close>

record Collection =
  col_id :: string
  col_supply :: nat

record Trait =
  t_id :: string
  t_name :: string
  t_zIndex :: int
  t_isAlwaysUnique :: bool

record TraitValue =
  tv_id :: string
  tv_name :: string
  tv_rarity :: jsnum

record ImageLayer =
  il_id :: string
  il_traitValueId :: "string option"
  il_bucketFilename :: string
  il_companionLayerId :: "string option"
  il_companionLayerZIndex :: "int option"

datatype ConflictResolutionType = Trait1None | Trait2None | Trait1Random | Trait2Random

record Conflict =
  c_trait1Id :: string
  c_trait1ValueId :: "string option"
  c_trait2Id :: string
  c_trait2ValueId :: "string option"
  c_resolutionType :: ConflictResolutionType

record TraitValuePair =
  trait :: Trait
  traitValue :: "TraitValue option"
  imageLayer :: "ImageLayer option"

record OrderedImageLayer =
  o_imageLayer :: ImageLayer
  o_zIndex :: int

type_synonym Hash = "(string \<times> string option) set"

record ImageComposite =
  ic_externalURL :: "string option"
  ic_traits :: "TraitValuePair list"
  ic_traitsHash :: Hash

text \<open>
  A failure that leaves \<^verbatim>\<open>generate\<close> through a rejected promise: reading
  \<^verbatim>\<open>.length\<close> or \<^verbatim>\<open>.findIndex\<close> of a dictionary entry that is missing, and a
  rejection of the single-input \<^verbatim>\<open>sharp\<close> pipeline, which has no \<^verbatim>\<open>catch\<close>.
\<close>

datatype error = TypeError | SharpRejected

datatype sharp_outcome = SharpResolved | SharpFailed

text \<open>
  The run descriptor (the constructor's fields) together with what the external
  collaborators answer during one call of \<^verbatim>\<open>generate\<close>: the readers' results, the two
  random sources, the compositor and the bucket upload. The \<open>k\<close>-th request to
  \<^verbatim>\<open>random-number-csprng\<close> is answered by \<open>csprng k\<close> (an integer between 0 and
  \<open>10 ^ 4\<close>), the \<open>k\<close>-th call of \<^verbatim>\<open>Math.random\<close> by \<open>mathRandom k\<close> (a fraction
  in \<open>[0, 1)\<close>). The compositor and the upload are asked once per item index.
\<close>

record env =
  projectId :: string
  collectionId :: string
  compositeGroupId :: string
  startIndex :: nat
  endIndex :: nat
  collection :: Collection
  traits :: "Trait list"
  imageLayers :: "ImageLayer list"
  conflicts :: "Conflict list"
  traitValuesAll :: "Trait \<Rightarrow> TraitValue list"
  csprng :: "nat \<Rightarrow> nat"
  mathRandom :: "nat \<Rightarrow> rat"
  sharp :: "string list \<Rightarrow> nat \<Rightarrow> sharp_outcome"
  upload :: "nat \<Rightarrow> string option"

text \<open>
  What changes while the batch runs, outside the loop's own variables: how many numbers
  each random source has handed out, and the ImageComposite records persisted so far in
  the run's scope (project, collection, composite group).
\<close>

record world =
  csprngCalls :: nat
  mathRandomCalls :: nat
  store :: "ImageComposite list"

section \<open>RarityWeightedSampler\<close>

definition TRAITVALUES_RARITY_MAX_PRECISION :: nat where
  "TRAITVALUES_RARITY_MAX_PRECISION = 4"

text \<open>
  \<^verbatim>\<open>randomNumber\<close>: the integer from the random source, which the library takes between
  0 and \<^verbatim>\<open>max\<close>, divided by \<^verbatim>\<open>Math.pow(10, 4)\<close>; both are exact as doubles, the
  quotient is rounded.
\<close>

definition randomNumber :: "env \<Rightarrow> nat \<Rightarrow> world \<Rightarrow> jsnum \<times> world" where
  "randomNumber e digitsPrecision w =
     (let maxv = (10::nat) ^ digitsPrecision;
          random = csprng e (csprngCalls w)
      in (roundD (of_nat random / of_nat maxv), w\<lparr>csprngCalls := Suc (csprngCalls w)\<rparr>))"

text \<open>
  The callback of \<^verbatim>\<open>randomValue\<close> that walks the segments: the list argument is the
  part of \<^verbatim>\<open>values\<close> from index \<^verbatim>\<open>segment\<close> on.
\<close>

fun segmentWalk :: "jsnum \<Rightarrow> jsnum \<Rightarrow> TraitValue list \<Rightarrow> TraitValue option" where
  "segmentWalk randomNum totalRarityRangeMax [] = None"
| "segmentWalk randomNum totalRarityRangeMax (value # rest) =
     (let total = jsAdd totalRarityRangeMax (tv_rarity value)
      in if jsLe randomNum total then Some value
         else segmentWalk randomNum total rest)"

definition maxAttempts :: nat where
  "maxAttempts = 10"

text \<open>
  The \<^verbatim>\<open>do ... while\<close> loop of \<^verbatim>\<open>randomValue\<close>. \<^verbatim>\<open>attempts\<close> starts at 0 and
  grows by one, so the source's test \<^verbatim>\<open>attempts == maxAttempts\<close> is first met at 10;
  it is written \<open>\<le>\<close> here, which agrees on every value the counter takes.
\<close>

function randomValue_loop ::
  "env \<Rightarrow> TraitValue list \<Rightarrow> string option \<Rightarrow> nat \<Rightarrow> world \<Rightarrow> TraitValue option \<times> world"
where
  "randomValue_loop e values excludeTraitValueId attempts w =
     (if maxAttempts \<le> attempts then (None, w)
      else
        (case randomNumber e TRAITVALUES_RARITY_MAX_PRECISION w of
           (r, w1) \<Rightarrow>
             (let v = segmentWalk r (Num 0) values in
              if excludeTraitValueId \<noteq> None \<and> map_option tv_id v = excludeTraitValueId
              then randomValue_loop e values excludeTraitValueId (Suc attempts) w1
              else (v, w1))))"
  by pat_completeness auto
termination
  by (relation "measure (\<lambda>(e, values, x, attempts, w). maxAttempts - attempts)") auto

declare randomValue_loop.simps [simp del]

definition nth_opt :: "'a list \<Rightarrow> nat \<Rightarrow> 'a option" where
  "nth_opt xs i = (if i < length xs then Some (xs ! i) else None)"

text \<open>
  \<^verbatim>\<open>values[Math.floor(x)]\<close>: \<^verbatim>\<open>undefined\<close> when the index is negative, beyond the
  end, or not a finite number.
\<close>

definition atFloor :: "'a list \<Rightarrow> jsnum \<Rightarrow> 'a option" where
  "atFloor xs x =
     (case x of Num y \<Rightarrow> if 0 \<le> y then nth_opt xs (nat \<lfloor>y\<rfloor>) else None | _ \<Rightarrow> None)"

definition randomValue ::
  "env \<Rightarrow> TraitValue list \<Rightarrow> bool \<Rightarrow> string option \<Rightarrow> world \<Rightarrow> TraitValue option \<times> world"
where
  "randomValue e values isTraitAlwaysUnique excludeTraitValueId w =
     (if isTraitAlwaysUnique then
        (let randomIndex = roundD (mathRandom e (mathRandomCalls w) * of_nat (length values))
         in (atFloor values randomIndex, w\<lparr>mathRandomCalls := Suc (mathRandomCalls w)\<rparr>))
      else randomValue_loop e values excludeTraitValueId 0 w)"

type_synonym TraitValuesDict = "(string \<times> TraitValue list) list"

text \<open>
  \<^verbatim>\<open>randomTraitValues\<close>: one pair per trait, in the order of \<^verbatim>\<open>traits\<close>. Every task
  of the \<^verbatim>\<open>Promise.all\<close> issues its request to a random source before its first
  suspension, so the requests are numbered in trait order. The dictionary
  \<^verbatim>\<open>traitValues\<close> is an association list; an entry that is missing is
  \<^verbatim>\<open>undefined\<close> in the source, and reading its \<^verbatim>\<open>length\<close> throws.
\<close>

fun randomTraitValues ::
  "env \<Rightarrow> Trait list \<Rightarrow> TraitValuesDict \<Rightarrow> world \<Rightarrow> error + (TraitValuePair list \<times> world)"
where
  "randomTraitValues e [] d w = Inr ([], w)"
| "randomTraitValues e (t # ts) d w =
     (case map_of d (t_id t) of
        None \<Rightarrow> Inl TypeError
      | Some values \<Rightarrow>
          (case randomValue e values (t_isAlwaysUnique t) None w of
             (v, w1) \<Rightarrow>
               (case randomTraitValues e ts d w1 of
                  Inl err \<Rightarrow> Inl err
                | Inr (ps, w2) \<Rightarrow>
                    Inr (\<lparr>trait = t, traitValue = v, imageLayer = None\<rparr> # ps, w2))))"

section \<open>ConflictResolver\<close>

text \<open>\<^verbatim>\<open>Array.prototype.findIndex\<close>, with \<open>None\<close> for the source's \<open>-1\<close>.\<close>

fun findIndex :: "('a \<Rightarrow> bool) \<Rightarrow> 'a list \<Rightarrow> nat option" where
  "findIndex P [] = None"
| "findIndex P (x # xs) = (if P x then Some 0 else map_option Suc (findIndex P xs))"

text \<open>
  The body of the \<^verbatim>\<open>for\<close> loop of \<^verbatim>\<open>resolveConflicts\<close> for one conflict. Each
  \<^verbatim>\<open>continue\<close> returns the pairs as they are. The names gathered for the log line are
  left out.
\<close>

definition resolveConflict ::
  "env \<Rightarrow> TraitValuesDict \<Rightarrow> Conflict \<Rightarrow> TraitValuePair list \<Rightarrow> world \<Rightarrow>
   error + (TraitValuePair list \<times> world)"
where
  "resolveConflict e traitValuesDict conflict traitValuePairs w =
     (case findIndex (\<lambda>pair. t_id (trait pair) = c_trait1Id conflict) traitValuePairs of
        None \<Rightarrow> Inr (traitValuePairs, w)
      | Some trait1Index \<Rightarrow>
     (case findIndex (\<lambda>pair. t_id (trait pair) = c_trait2Id conflict) traitValuePairs of
        None \<Rightarrow> Inr (traitValuePairs, w)
      | Some trait2Index \<Rightarrow>
          if c_trait1ValueId conflict \<noteq> None \<and>
             findIndex (\<lambda>pair. t_id (trait pair) = c_trait1Id conflict \<and>
                 map_option tv_id (traitValue pair) = c_trait1ValueId conflict) traitValuePairs = None
          then Inr (traitValuePairs, w)
          else if c_trait2ValueId conflict \<noteq> None \<and>
             findIndex (\<lambda>pair. t_id (trait pair) = c_trait2Id conflict \<and>
                 map_option tv_id (traitValue pair) = c_trait2ValueId conflict) traitValuePairs = None
          then Inr (traitValuePairs, w)
          else
            (case c_resolutionType conflict of
               Trait1None \<Rightarrow>
                 Inr (traitValuePairs[trait1Index :=
                        (traitValuePairs ! trait1Index)\<lparr>traitValue := None\<rparr>], w)
             | Trait2None \<Rightarrow>
                 Inr (traitValuePairs[trait2Index :=
                        (traitValuePairs ! trait2Index)\<lparr>traitValue := None\<rparr>], w)
             | Trait1Random \<Rightarrow>
                 (let pair1 = traitValuePairs ! trait1Index in
                  case map_of traitValuesDict (t_id (trait pair1)) of
                    None \<Rightarrow> Inl TypeError
                  | Some values \<Rightarrow>
                      (case randomValue e values (t_isAlwaysUnique (trait pair1))
                              (map_option tv_id (traitValue pair1)) w of
                         (newRandomValue1, w1) \<Rightarrow>
                           Inr (traitValuePairs[trait1Index :=
                                  pair1\<lparr>traitValue := newRandomValue1\<rparr>], w1)))
             | Trait2Random \<Rightarrow>
                 (let pair2 = traitValuePairs ! trait2Index in
                  case map_of traitValuesDict (t_id (trait pair2)) of
                    None \<Rightarrow> Inl TypeError
                  | Some values \<Rightarrow>
                      (case randomValue e values (t_isAlwaysUnique (trait pair2))
                              (map_option tv_id (traitValue pair2)) w of
                         (newRandomValue2, w1) \<Rightarrow>
                           Inr (traitValuePairs[trait2Index :=
                                  pair2\<lparr>traitValue := newRandomValue2\<rparr>], w1))))))"

fun resolveConflicts ::
  "env \<Rightarrow> TraitValuePair list \<Rightarrow> Conflict list \<Rightarrow> TraitValuesDict \<Rightarrow> world \<Rightarrow>
   error + (TraitValuePair list \<times> world)"
where
  "resolveConflicts e traitValuePairs [] traitValuesDict w = Inr (traitValuePairs, w)"
| "resolveConflicts e traitValuePairs (conflict # rest) traitValuesDict w =
     (case resolveConflict e traitValuesDict conflict traitValuePairs w of
        Inl err \<Rightarrow> Inl err
      | Inr (pairs1, w1) \<Rightarrow> resolveConflicts e pairs1 rest traitValuesDict w1)"

text \<open>The pair of trait \<open>tid\<close> carries the value \<open>vid\<close>.\<close>

definition pairIs :: "string \<Rightarrow> string \<Rightarrow> TraitValuePair \<Rightarrow> bool" where
  "pairIs tid vid pair = (t_id (trait pair) = tid \<and> map_option tv_id (traitValue pair) = Some vid)"

definition dropFirstConflict :: "string \<Rightarrow> string \<Rightarrow> string \<Rightarrow> string \<Rightarrow> Conflict" where
  "dropFirstConflict a red b green =
     \<lparr>c_trait1Id = a, c_trait1ValueId = Some red, c_trait2Id = b, c_trait2ValueId = Some green,
      c_resolutionType = Trait1None\<rparr>"

definition dropValueOf :: "string \<Rightarrow> TraitValuePair \<Rightarrow> TraitValuePair" where
  "dropValueOf tid pair = (if t_id (trait pair) = tid then pair\<lparr>traitValue := None\<rparr> else pair)"

section \<open>LayerCompositionPlanner\<close>

text \<open>
  \<^verbatim>\<open>Array.prototype.sort\<close> is stable, and so is insertion sort by key; the comparator of
  both sorts of the source orders by the numeric z-index alone.
\<close>

definition sortTraitValuePairs :: "TraitValuePair list \<Rightarrow> TraitValuePair list" where
  "sortTraitValuePairs traitValuePairs = sort_key (\<lambda>a. t_zIndex (trait a)) traitValuePairs"

text \<open>What one pair pushes onto \<^verbatim>\<open>imageLayerPairs\<close> in the \<^verbatim>\<open>forEach\<close>.\<close>

definition emitPair :: "ImageLayer list \<Rightarrow> TraitValuePair \<Rightarrow> OrderedImageLayer list" where
  "emitPair catalog pair =
     (case imageLayer pair of
        None \<Rightarrow> []
      | Some l \<Rightarrow> [\<lparr>o_imageLayer = l, o_zIndex = t_zIndex (trait pair)\<rparr>]) @
     (case (Option.bind (imageLayer pair) il_companionLayerId,
            Option.bind (imageLayer pair) il_companionLayerZIndex) of
        (Some companionId, Some companionZIndex) \<Rightarrow>
          (case find (\<lambda>l. il_id l = companionId) catalog of
             None \<Rightarrow> []
           | Some companionImageLayer \<Rightarrow>
               [\<lparr>o_imageLayer = companionImageLayer, o_zIndex = companionZIndex\<rparr>])
      | _ \<Rightarrow> [])"

definition imageLayerPairs :: "TraitValuePair list \<Rightarrow> ImageLayer list \<Rightarrow> OrderedImageLayer list" where
  "imageLayerPairs sortedTraitValueImagePairs catalog =
     concat (map (emitPair catalog) sortedTraitValueImagePairs)"

definition orderedImageLayerPairs ::
  "TraitValuePair list \<Rightarrow> ImageLayer list \<Rightarrow> OrderedImageLayer list" where
  "orderedImageLayerPairs sortedTraitValueImagePairs catalog =
     sort_key o_zIndex (imageLayerPairs sortedTraitValueImagePairs catalog)"

definition sortedImageLayersInjectingCompanions ::
  "TraitValuePair list \<Rightarrow> ImageLayer list \<Rightarrow> ImageLayer list" where
  "sortedImageLayersInjectingCompanions sortedTraitValueImagePairs catalog =
     map o_imageLayer (orderedImageLayerPairs sortedTraitValueImagePairs catalog)"

section \<open>UniquenessRegistry\<close>

text \<open>
  Modelled from the spec: \<^verbatim>\<open>ImageComposites.traitsHash\<close> of \<^verbatim>\<open>../models/models\<close>,
  which is not among the sources. The specification calls it a canonical encoding of the
  (traitId, traitValueId or null) pairs that does not depend on their order and suffices
  to detect duplicate combinations; the model keeps exactly that content, the set of the
  pairs.
\<close>

definition traitsHash :: "TraitValuePair list \<Rightarrow> Hash" where
  "traitsHash traitValuePairs =
     set (map (\<lambda>pair. (t_id (trait pair), map_option tv_id (traitValue pair))) traitValuePairs)"

text \<open>
  Modelled from the spec: \<^verbatim>\<open>ImageComposites.isUniqueTraitsHash\<close>, which answers whether
  no composite persisted in the run's scope carries the hash.
\<close>

definition isUniqueTraitsHash :: "Hash \<Rightarrow> world \<Rightarrow> bool" where
  "isUniqueTraitsHash hash w = (hash \<notin> set (map ic_traitsHash (store w)))"

text \<open>
  Modelled from the spec: \<^verbatim>\<open>ImageComposites.create\<close>, which persists the record in the
  run's scope and returns it.
\<close>

definition create :: "ImageComposite \<Rightarrow> world \<Rightarrow> ImageComposite \<times> world" where
  "create compositeData w = (compositeData, w\<lparr>store := store w @ [compositeData]\<rparr>)"

section \<open>BatchOrchestrator\<close>

definition numRetries :: nat where
  "numRetries = 20"

text \<open>
  The \<^verbatim>\<open>while (!hasUnusedTraitValuePair)\<close> loop of \<^verbatim>\<open>generateArtworkForItem\<close>. The
  result \<open>None\<close> stands for \<^verbatim>\<open>failedToFindUnusedTraitPair\<close>, and \<open>Some\<close> carries the
  pairs the loop leaves in \<^verbatim>\<open>traitValuePairs\<close>. The counter starts at 20, so it is
  never 0 on entry to an iteration; on natural numbers \<open>0 - 1 = 0\<close>, where the source
  would go negative.
\<close>

function drawUnused ::
  "env \<Rightarrow> TraitValuesDict \<Rightarrow> nat \<Rightarrow> world \<Rightarrow> error + (TraitValuePair list option \<times> world)"
where
  "drawUnused e d retriesRemaining w =
     (case randomTraitValues e (traits e) d w of
        Inl err \<Rightarrow> Inl err
      | Inr (traitValuePairs, w1) \<Rightarrow>
          (let hash = traitsHash traitValuePairs;
               hasUnusedTraitValuePair = isUniqueTraitsHash hash w1;
               retries = retriesRemaining - 1
           in if retries = 0 then Inr (None, w1)
              else if hasUnusedTraitValuePair then Inr (Some traitValuePairs, w1)
              else drawUnused e d retries w1))"
  by pat_completeness auto
termination
  by (relation "measure (\<lambda>(e, d, retriesRemaining, w). retriesRemaining)") auto

declare drawUnused.simps [simp del]

text \<open>
  \<^verbatim>\<open>traitValueIdToImageLayers\<close>, filled by the \<^verbatim>\<open>forEach\<close> at the start of
  \<^verbatim>\<open>generate\<close>: a later layer of the same trait value replaces an earlier one, and a
  layer whose \<^verbatim>\<open>traitValueId\<close> is null or empty is left out.
\<close>

definition traitValueIdToImageLayers :: "ImageLayer list \<Rightarrow> (string \<rightharpoonup> ImageLayer)" where
  "traitValueIdToImageLayers layers =
     fold (\<lambda>l m. case il_traitValueId l of
                    None \<Rightarrow> m
                  | Some tvid \<Rightarrow> if tvid = [] then m else m(tvid \<mapsto> l)) layers Map.empty"

definition attachImageLayer :: "(string \<rightharpoonup> ImageLayer) \<Rightarrow> TraitValuePair \<Rightarrow> TraitValuePair" where
  "attachImageLayer layerOf traitValuePair =
     traitValuePair\<lparr>imageLayer :=
       (case traitValue traitValuePair of
          None \<Rightarrow> None
        | Some v \<Rightarrow> if tv_id v = [] then None else layerOf (tv_id v))\<rparr>"

text \<open>
  The staging paths. \<^verbatim>\<open>path.join\<close> is plain concatenation with a separator here; the
  temporary directory is fixed for the process.
\<close>

definition projectDownloadPath :: "env \<Rightarrow> string" where
  "projectDownloadPath e = ''/tmp/treattoolbox/'' @ projectId e"

definition layerDownloadPath :: "env \<Rightarrow> string" where
  "layerDownloadPath e = projectDownloadPath e @ ''/layered-images''"

definition downloadPathForImageLayer :: "env \<Rightarrow> ImageLayer \<Rightarrow> string" where
  "downloadPathForImageLayer e l = layerDownloadPath e @ ''/'' @ il_id l @ ''.png''"

text \<open>
  \<^verbatim>\<open>compositeImages\<close>. The output path is determined by the item index, which stands for
  it. With one input the promise of \<^verbatim>\<open>sharp\<close> is returned as it is: resolved it is
  truthy, rejected it throws in the caller. With more inputs a failure is caught and
  gives \<^verbatim>\<open>false\<close>.
\<close>

definition compositeImages :: "env \<Rightarrow> string option list \<Rightarrow> nat \<Rightarrow> error + bool" where
  "compositeImages e optInputFilePaths itemIndex =
     (case List.map_filter (\<lambda>f. case f of None \<Rightarrow> None
                                  | Some p \<Rightarrow> if p = [] then None else Some p) optInputFilePaths of
        [] \<Rightarrow> Inr False
      | [firstPath] \<Rightarrow>
          (case sharp e [firstPath] itemIndex of
             SharpResolved \<Rightarrow> Inr True
           | SharpFailed \<Rightarrow> Inl SharpRejected)
      | firstPath # inputFilePaths \<Rightarrow>
          (case sharp e (firstPath # inputFilePaths) itemIndex of
             SharpResolved \<Rightarrow> Inr True
           | SharpFailed \<Rightarrow> Inr False))"

definition generateArtworkForItem ::
  "env \<Rightarrow> nat \<Rightarrow> TraitValuesDict \<Rightarrow> (string \<rightharpoonup> ImageLayer) \<Rightarrow> world \<Rightarrow>
   error + (ImageComposite option \<times> world)"
where
  "generateArtworkForItem e itemIndex traitValues layerOf w =
     (case drawUnused e traitValues numRetries w of
        Inl err \<Rightarrow> Inl err
      | Inr (None, w1) \<Rightarrow> Inr (None, w1)
      | Inr (Some drawn, w1) \<Rightarrow>
          (case resolveConflicts e drawn (conflicts e) traitValues w1 of
             Inl err \<Rightarrow> Inl err
           | Inr (traitValuePairs, w2) \<Rightarrow>
               (let traitValueImagePairs = map (attachImageLayer layerOf) traitValuePairs;
                    sortedTraitValueImagePairs = sortTraitValuePairs traitValueImagePairs;
                    sortedImageLayers =
                      sortedImageLayersInjectingCompanions sortedTraitValueImagePairs (imageLayers e);
                    inputFilePaths =
                      map (\<lambda>l. Some (downloadPathForImageLayer e l)) sortedImageLayers
                in case compositeImages e inputFilePaths itemIndex of
                     Inl err \<Rightarrow> Inl err
                   | Inr succeeded \<Rightarrow>
                       if succeeded then
                         Inr (Some \<lparr>ic_externalURL = upload e itemIndex,
                                    ic_traits = sortedTraitValueImagePairs,
                                    ic_traitsHash = traitsHash sortedTraitValueImagePairs\<rparr>, w2)
                       else Inr (None, w2))))"

text \<open>
  \<^verbatim>\<open>removeUsedAlwaysUniqueTraitValues\<close>: the \<^verbatim>\<open>splice\<close> takes the element at the
  matching index out of the trait's list, and the list is stored back under the trait's id.
\<close>

fun removeUsedAlwaysUniqueTraitValues ::
  "Trait list \<Rightarrow> TraitValuesDict \<Rightarrow> ImageComposite \<Rightarrow> error + TraitValuesDict"
where
  "removeUsedAlwaysUniqueTraitValues [] traitValues composite = Inr traitValues"
| "removeUsedAlwaysUniqueTraitValues (t # ts) traitValues composite =
     (if t_isAlwaysUnique t then
        (case map_of traitValues (t_id t) of
           None \<Rightarrow> Inl TypeError
         | Some values \<Rightarrow>
             (let compositeTraitPair = find (\<lambda>traitPair. t_id (trait traitPair) = t_id t)
                                            (ic_traits composite);
                  compositeValue = Option.bind compositeTraitPair traitValue;
                  matchingValueIndex =
                    findIndex (\<lambda>v. Some (tv_id v) = map_option tv_id compositeValue) values
              in case matchingValueIndex of
                   None \<Rightarrow> removeUsedAlwaysUniqueTraitValues ts traitValues composite
                 | Some k \<Rightarrow>
                     removeUsedAlwaysUniqueTraitValues ts
                       (AList.update (t_id t) (take k values @ drop (Suc k) values) traitValues)
                       composite))
      else removeUsedAlwaysUniqueTraitValues ts traitValues composite)"

text \<open>The variables of the \<^verbatim>\<open>while\<close> loop of \<^verbatim>\<open>generate\<close>, and the world.\<close>

record gstate =
  g_i :: nat
  g_traitValues :: TraitValuesDict
  g_composites :: "ImageComposite list"
  g_world :: world

text \<open>
  One pass through the body of the loop. When \<^verbatim>\<open>generateArtworkForItem\<close> gives null, the
  \<^verbatim>\<open>continue\<close> goes back to the loop test with \<^verbatim>\<open>i\<close> as it was.
\<close>

definition generateStep :: "env \<Rightarrow> (string \<rightharpoonup> ImageLayer) \<Rightarrow> gstate \<Rightarrow> error + gstate" where
  "generateStep e layerOf s =
     (case generateArtworkForItem e (g_i s) (g_traitValues s) layerOf (g_world s) of
        Inl err \<Rightarrow> Inl err
      | Inr (None, w1) \<Rightarrow> Inr (s\<lparr>g_world := w1\<rparr>)
      | Inr (Some compositeData, w1) \<Rightarrow>
          (case create compositeData w1 of
             (composite, w2) \<Rightarrow>
               (case removeUsedAlwaysUniqueTraitValues (traits e) (g_traitValues s) composite of
                  Inl err \<Rightarrow> Inl err
                | Inr remaining \<Rightarrow>
                    Inr \<lparr>g_i = Suc (g_i s), g_traitValues = remaining,
                         g_composites = g_composites s @ [composite], g_world = w2\<rparr>)))"

text \<open>
  The loop itself. It has no bound of its own, so it is a partial function: the value
  \<open>None\<close> means that the loop never leaves, \<open>Some (Inl err)\<close> that an exception left
  it, \<open>Some (Inr s)\<close> that it ended in state \<open>s\<close>.
\<close>

partial_function (option) generateLoop ::
  "env \<Rightarrow> (string \<rightharpoonup> ImageLayer) \<Rightarrow> gstate \<Rightarrow> (error + gstate) option"
where
  "generateLoop e layerOf s =
     (if g_i s < endIndex e then
        (case generateStep e layerOf s of
           Inl err \<Rightarrow> Some (Inl err)
         | Inr s1 \<Rightarrow> generateLoop e layerOf s1)
      else Some (Inr s))"

definition prefetchTraitValues :: "env \<Rightarrow> TraitValuesDict" where
  "prefetchTraitValues e =
     fold (\<lambda>t traitValues. AList.update (t_id t) (traitValuesAll e t) traitValues) (traits e) []"

definition initialState :: "env \<Rightarrow> world \<Rightarrow> gstate" where
  "initialState e w =
     \<lparr>g_i = startIndex e, g_traitValues = prefetchTraitValues e, g_composites = [], g_world = w\<rparr>"

text \<open>
  \<^verbatim>\<open>generate\<close>, from the readers' answers on. Creating and removing the staging
  directories and downloading the layer files touch nothing the loop reads, and are left
  out. The result is the returned \<^verbatim>\<open>composites\<close> together with the world at the end.
\<close>

definition generate :: "env \<Rightarrow> world \<Rightarrow> (error + (ImageComposite list \<times> world)) option" where
  "generate e w =
     (if length (traits e) = 0 then Some (Inr ([], w))
      else if length (prefetchTraitValues e) = 0 then Some (Inr ([], w))
      else if length (imageLayers e) = 0 then Some (Inr ([], w))
      else
        (case generateLoop e (traitValueIdToImageLayers (imageLayers e)) (initialState e w) of
           None \<Rightarrow> None
         | Some (Inl err) \<Rightarrow> Some (Inl err)
         | Some (Inr s) \<Rightarrow> Some (Inr (g_composites s, g_world s))))"

text \<open>The loop states a run passes through, one body of the loop at a time.\<close>

inductive reaches :: "env \<Rightarrow> (string \<rightharpoonup> ImageLayer) \<Rightarrow> gstate \<Rightarrow> gstate \<Rightarrow> bool"
  for e :: env and layerOf :: "string \<rightharpoonup> ImageLayer" and s0 :: gstate
where
  reaches_start: "reaches e layerOf s0 s0"
| reaches_step:
    "reaches e layerOf s0 s \<Longrightarrow> g_i s < endIndex e \<Longrightarrow> generateStep e layerOf s = Inr s1 \<Longrightarrow>
     reaches e layerOf s0 s1"

text \<open>
  The sampler in the words of the specification, with the sums the way the code forms
  them: the running sum of the rarities up to and including position \<open>k\<close>, added one
  after the other from 0 in double arithmetic, and the first value whose running sum
  reaches \<open>r\<close>.
\<close>

definition cumulativeRarity :: "TraitValue list \<Rightarrow> nat \<Rightarrow> jsnum" where
  "cumulativeRarity values k = foldl jsAdd (Num 0) (map tv_rarity (take (Suc k) values))"

definition firstReaching :: "jsnum \<Rightarrow> TraitValue list \<Rightarrow> TraitValue option" where
  "firstReaching r values =
     map_option (nth values) (find (\<lambda>k. jsLe r (cumulativeRarity values k)) [0..<length values])"

definition fractionAt :: "env \<Rightarrow> nat \<Rightarrow> jsnum" where
  "fractionAt e k = roundD (of_nat (csprng e k) / 10 ^ 4)"

definition drawnFraction :: "env \<Rightarrow> world \<Rightarrow> jsnum" where
  "drawnFraction e w = fractionAt e (csprngCalls w)"

text \<open>
  The same with sums that do not round: the exact sum of the values the rarities denote
  (a rarity that is not finite counts 0), and the first value whose exact sum is at least
  the fraction \<open>r\<close>.
\<close>

definition exactRarity :: "TraitValue \<Rightarrow> rat" where
  "exactRarity v = (case tv_rarity v of Num x \<Rightarrow> x | _ \<Rightarrow> 0)"

definition exactCumulativeRarity :: "TraitValue list \<Rightarrow> nat \<Rightarrow> rat" where
  "exactCumulativeRarity values k = sum_list (map exactRarity (take (Suc k) values))"

definition firstReachingExact :: "jsnum \<Rightarrow> TraitValue list \<Rightarrow> TraitValue option" where
  "firstReachingExact r values =
     map_option (nth values)
       (find (\<lambda>k. jsLe r (Num (exactCumulativeRarity values k))) [0..<length values])"





section \<open>What the batch loop maintains\<close>

text \<open>
  The notions the theorems about the loop are stated with: where a drawn value comes
  from, which value ids of a trait the composites so far have used, which ids are left
  in its pool, and what \<^verbatim>\<open>removeUsedAlwaysUniqueTraitValues\<close> does to one pool.
\<close>

definition drawnFrom :: "TraitValuesDict \<Rightarrow> TraitValuePair \<Rightarrow> bool" where
  "drawnFrom d pair =
     (case traitValue pair of
        None \<Rightarrow> True
      | Some v \<Rightarrow> (case map_of d (t_id (trait pair)) of None \<Rightarrow> False | Some vs \<Rightarrow> v \<in> set vs))"

definition valueIdsOf :: "string \<Rightarrow> ImageComposite \<Rightarrow> string list" where
  "valueIdsOf tid composite =
     List.map_filter (\<lambda>pair. if t_id (trait pair) = tid then map_option tv_id (traitValue pair)
                               else None) (ic_traits composite)"

definition usedIds :: "string \<Rightarrow> ImageComposite list \<Rightarrow> string list" where
  "usedIds tid composites = concat (map (valueIdsOf tid) composites)"

definition poolIds :: "TraitValuesDict \<Rightarrow> string \<Rightarrow> string list" where
  "poolIds d tid = (case map_of d tid of None \<Rightarrow> [] | Some vs \<Rightarrow> map tv_id vs)"

definition splicePool :: "ImageComposite \<Rightarrow> string \<Rightarrow> TraitValue list \<Rightarrow> TraitValue list" where
  "splicePool composite tid vs =
     (case findIndex (\<lambda>v. Some (tv_id v) =
              map_option tv_id (Option.bind (find (\<lambda>traitPair. t_id (trait traitPair) = tid)
                 (ic_traits composite)) traitValue)) vs of
        None \<Rightarrow> vs
      | Some k \<Rightarrow> take k vs @ drop (Suc k) vs)"

text \<open>What a composite handed out by \<^verbatim>\<open>generateArtworkForItem\<close> satisfies.\<close>

definition producedFrom :: "env \<Rightarrow> TraitValuesDict \<Rightarrow> world \<Rightarrow> ImageComposite \<Rightarrow> bool" where
  "producedFrom e d w composite =
     (mset (map trait (ic_traits composite)) = mset (traits e) \<and>
      list_all (drawnFrom d) (ic_traits composite) \<and>
      (conflicts e = [] \<longrightarrow> isUniqueTraitsHash (ic_traitsHash composite) w))"

definition persistedDistinct :: "world \<Rightarrow> gstate \<Rightarrow> bool" where
  "persistedDistinct w s =
     (store (g_world s) = store w @ g_composites s \<and>
      distinct (map ic_traitsHash (store (g_world s))))"

text \<open>
  The contract of the surrounding system on the pool of an always-unique trait \<open>t\<close>
  whose available values have the ids \<open>allIds\<close>: the value ids that the composites already
  persisted have used, together with the ids of the values read for this batch, are ids
  of the trait, each at most once. So the persisted composites use no id twice, and the
  pool read for the batch holds no id twice and none that is used.
\<close>

definition poolContract :: "string list \<Rightarrow> Trait \<Rightarrow> env \<Rightarrow> world \<Rightarrow> bool" where
  "poolContract allIds t e w =
     (distinct allIds \<and>
      mset (usedIds (t_id t) (store w)) + mset (map tv_id (traitValuesAll e t)) \<subseteq># mset allIds)"

definition storeAppended :: "world \<Rightarrow> gstate \<Rightarrow> bool" where
  "storeAppended w s = (store (g_world s) = store w @ g_composites s)"

definition poolAccounted :: "string list \<Rightarrow> Trait \<Rightarrow> gstate \<Rightarrow> bool" where
  "poolAccounted allIds t s =
     (mset (usedIds (t_id t) (store (g_world s))) + mset (poolIds (g_traitValues s) (t_id t))
        \<subseteq># mset allIds)"

definition alwaysUniqueRespected :: "string list \<Rightarrow> Trait \<Rightarrow> gstate \<Rightarrow> bool" where
  "alwaysUniqueRespected allIds t s =
     (distinct (usedIds (t_id t) (store (g_world s))) \<and>
      set (usedIds (t_id t) (store (g_world s))) \<inter> set (poolIds (g_traitValues s) (t_id t)) = {} \<and>
      mset (usedIds (t_id t) (store (g_world s))) \<subseteq># mset allIds \<and>
      length (filter (\<lambda>c. valueIdsOf (t_id t) c \<noteq> []) (store (g_world s))) \<le> length allIds)"

section \<open>Example runs\<close>

text \<open>
  Small collections on which the theorems below are run: a compositor that always
  succeeds, an upload that always gives a URL. A value's rarity is the double nearest to
  the decimal given, as \<^verbatim>\<open>parseFloat\<close> reads it.
\<close>

definition mkTrait :: "string \<Rightarrow> int \<Rightarrow> bool \<Rightarrow> Trait" where
  "mkTrait n z u = \<lparr>t_id = n, t_name = n, t_zIndex = z, t_isAlwaysUnique = u\<rparr>"

definition mkValue :: "string \<Rightarrow> rat \<Rightarrow> TraitValue" where
  "mkValue n r = \<lparr>tv_id = n, tv_name = n, tv_rarity = roundD r\<rparr>"

definition mkLayer :: "string \<Rightarrow> string \<Rightarrow> ImageLayer" where
  "mkLayer n v = \<lparr>il_id = n, il_traitValueId = Some v, il_bucketFilename = n,
     il_companionLayerId = None, il_companionLayerZIndex = None\<rparr>"

definition mkEnv ::
  "nat \<Rightarrow> nat \<Rightarrow> Trait list \<Rightarrow> ImageLayer list \<Rightarrow> Conflict list \<Rightarrow>
   (Trait \<Rightarrow> TraitValue list) \<Rightarrow> (nat \<Rightarrow> nat) \<Rightarrow> (nat \<Rightarrow> rat) \<Rightarrow> env" where
  "mkEnv i j ts ls cs tva rnd mrnd =
     \<lparr>projectId = ''p'', collectionId = ''c'', compositeGroupId = ''g'',
      startIndex = i, endIndex = j, collection = \<lparr>col_id = ''c'', col_supply = 3\<rparr>,
      traits = ts, imageLayers = ls, conflicts = cs, traitValuesAll = tva,
      csprng = rnd, mathRandom = mrnd,
      sharp = (\<lambda>paths itemIndex. SharpResolved), upload = (\<lambda>itemIndex. Some ''url'')\<rparr>"

definition world0 :: world where
  "world0 = \<lparr>csprngCalls = 0, mathRandomCalls = 0, store = []\<rparr>"

text \<open>
  The end-to-end scenario of the specification: one trait \<open>Background\<close> whose only value
  \<open>Red\<close> has rarity 1, the batch \<open>[0, 3)\<close>; \<open>stuckC2\<close> describes the loop state after item 0.
\<close>

definition backgroundTrait :: Trait where "backgroundTrait = mkTrait ''Background'' 0 False"
definition redValue :: TraitValue where "redValue = mkValue ''Red'' 1"
definition redLayer :: ImageLayer where "redLayer = mkLayer ''L1'' ''Red''"

definition envC2 :: "(nat \<Rightarrow> nat) \<Rightarrow> env" where
  "envC2 rnd = mkEnv 0 3 [backgroundTrait] [redLayer] [] (\<lambda>t. [redValue]) rnd (\<lambda>k. 0)"

definition redPair :: TraitValuePair where
  "redPair = \<lparr>trait = backgroundTrait, traitValue = Some redValue, imageLayer = None\<rparr>"

definition redHash :: Hash where
  "redHash = {(''Background'', Some ''Red'')}"

definition stuckC2 :: "(nat \<Rightarrow> nat) \<Rightarrow> env \<Rightarrow> (string \<rightharpoonup> ImageLayer) \<Rightarrow> gstate \<Rightarrow> bool" where
  "stuckC2 rnd e layerOf s =
     (e = envC2 rnd \<and> g_i s = 1 \<and> g_traitValues s = [(''Background'', [redValue])] \<and>
      redHash \<in> set (map ic_traitsHash (store (g_world s))))"

text \<open>Traits \<open>A\<close> and \<open>B\<close> drawn by rarity, the always-unique trait \<open>U\<close>, and their values.\<close>

definition mkPair :: "Trait \<Rightarrow> TraitValue option \<Rightarrow> TraitValuePair" where
  "mkPair t v = \<lparr>trait = t, traitValue = v, imageLayer = None\<rparr>"

definition traitA :: Trait where "traitA = mkTrait ''A'' 0 False"
definition traitB :: Trait where "traitB = mkTrait ''B'' 1 False"
definition traitU :: Trait where "traitU = mkTrait ''U'' 0 True"
definition aRed :: TraitValue where "aRed = mkValue ''Red'' (1 / 2)"
definition aBlue :: TraitValue where "aBlue = mkValue ''Blue'' (1 / 2)"
definition bGreen :: TraitValue where "bGreen = mkValue ''Green'' 1"
definition bYellow :: TraitValue where "bYellow = mkValue ''Yellow'' 1"
definition uOnly :: TraitValue where "uOnly = mkValue ''Only'' (- 1)"

text \<open>
  A store that already holds \<open>A = Red\<close>, and a random source that gives \<open>Red\<close> 19 times
  and \<open>Blue\<close> from the twentieth request on.
\<close>

definition usedRed :: ImageComposite where
  "usedRed = \<lparr>ic_externalURL = Some ''url'',
     ic_traits = [(mkPair traitA (Some aRed))\<lparr>imageLayer := Some (mkLayer ''LR'' ''Red'')\<rparr>],
     ic_traitsHash = {(''A'', Some ''Red'')}\<rparr>"

definition envC3 :: env where
  "envC3 = mkEnv 1 2 [traitA] [mkLayer ''LR'' ''Red'', mkLayer ''LB'' ''Blue''] []
     (\<lambda>t. [aRed, aBlue]) (\<lambda>k. if k < 19 then 1000 else 9000) (\<lambda>k. 0)"

definition worldC3 :: world where
  "worldC3 = \<lparr>csprngCalls = 0, mathRandomCalls = 0, store = [usedRed]\<rparr>"

text \<open>A draw on which a conflict asks to randomize the always-unique trait \<open>U\<close>.\<close>

definition envC7 :: env where
  "envC7 = mkEnv 0 1 [traitU, traitB] [mkLayer ''LO'' ''Only'', mkLayer ''LG'' ''Green''] []
     (\<lambda>t. if t_id t = ''U'' then [uOnly] else [bGreen]) (\<lambda>k. 5000) (\<lambda>k. 1 / 2)"

definition conflictC7 :: Conflict where
  "conflictC7 = \<lparr>c_trait1Id = ''U'', c_trait1ValueId = Some ''Only'', c_trait2Id = ''B'',
     c_trait2ValueId = Some ''Green'', c_resolutionType = Trait1Random\<rparr>"

definition drawC7 :: "TraitValuePair list" where
  "drawC7 = [mkPair traitU (Some uOnly), mkPair traitB (Some bGreen)]"

text \<open>Two draws for the DropFirst conflict between \<open>A = Red\<close> and \<open>B = Green\<close>.\<close>

definition drawRG :: "TraitValuePair list" where
  "drawRG = [mkPair traitA (Some aRed), mkPair traitB (Some bGreen)]"

definition drawRY :: "TraitValuePair list" where
  "drawRY = [mkPair traitA (Some aRed), mkPair traitB (Some bYellow)]"

text \<open>A trait without values beside one image layer; \<open>stuckC10\<close> is the loop state that recurs.\<close>

definition envC10 :: "(nat \<Rightarrow> nat) \<Rightarrow> env" where
  "envC10 rnd = mkEnv 0 1 [traitA] [mkLayer ''LR'' ''Red''] [] (\<lambda>t. []) rnd (\<lambda>k. 0)"

definition stuckC10 :: "(nat \<Rightarrow> nat) \<Rightarrow> env \<Rightarrow> (string \<rightharpoonup> ImageLayer) \<Rightarrow> gstate \<Rightarrow> bool" where
  "stuckC10 rnd e layerOf s =
     (e = envC10 rnd \<and> g_i s = 0 \<and> g_traitValues s = [(''A'', [])] \<and> store (g_world s) = [])"

text \<open>
  Any value of \<open>A\<close> conflicts with \<open>B = Green\<close> and is dropped; the random source draws
  \<open>(Red, Green)\<close> for item 0 and \<open>(Blue, Green)\<close> for item 1.
\<close>

definition conflictC1 :: Conflict where
  "conflictC1 = \<lparr>c_trait1Id = ''A'', c_trait1ValueId = None, c_trait2Id = ''B'',
     c_trait2ValueId = Some ''Green'', c_resolutionType = Trait1None\<rparr>"

definition envC1 :: env where
  "envC1 = mkEnv 0 2 [traitA, traitB]
     [mkLayer ''LR'' ''Red'', mkLayer ''LB'' ''Blue'', mkLayer ''LG'' ''Green''] [conflictC1]
     (\<lambda>t. if t_id t = ''A'' then [aRed, aBlue] else [bGreen])
     (\<lambda>k. if k = 0 then 1000 else if k = 2 then 9000 else 5000) (\<lambda>k. 0)"

definition compositeC1 :: ImageComposite where
  "compositeC1 = \<lparr>ic_externalURL = Some ''url'',
     ic_traits = [mkPair traitA None,
                  (mkPair traitB (Some bGreen))\<lparr>imageLayer := Some (mkLayer ''LG'' ''Green'')\<rparr>],
     ic_traitsHash = {(''A'', None), (''B'', Some ''Green'')}\<rparr>"






text \<open>
  A run of two items over the always-unique trait \<open>U\<close> with two values and no conflicts,
  and what \<^verbatim>\<open>generate\<close> returns for it.
\<close>

definition uOne :: TraitValue where "uOne = mkValue ''One'' (- 1)"
definition uTwo :: TraitValue where "uTwo = mkValue ''Two'' (- 1)"

definition envU :: env where
  "envU = mkEnv 0 2 [traitU] [mkLayer ''L1'' ''One'', mkLayer ''L2'' ''Two''] []
     (\<lambda>t. [uOne, uTwo]) (\<lambda>k. 0) (\<lambda>k. 0)"

definition compositeU :: "TraitValue \<Rightarrow> ImageLayer \<Rightarrow> ImageComposite" where
  "compositeU v l = \<lparr>ic_externalURL = Some ''url'',
     ic_traits = [(mkPair traitU (Some v))\<lparr>imageLayer := Some l\<rparr>],
     ic_traitsHash = {(''U'', Some (tv_id v))}\<rparr>"

definition resultU :: "ImageComposite list" where
  "resultU = [compositeU uOne (mkLayer ''L1'' ''One''), compositeU uTwo (mkLayer ''L2'' ''Two'')]"

text \<open>
  The next batch of that run: one item, started on the store that holds the composite
  with \<open>One\<close>, with the pool read as \<open>Two\<close> alone.
\<close>

definition envV :: env where
  "envV = mkEnv 1 2 [traitU] [mkLayer ''L1'' ''One'', mkLayer ''L2'' ''Two''] []
     (\<lambda>t. [uTwo]) (\<lambda>k. 0) (\<lambda>k. 0)"

definition worldV :: world where
  "worldV = \<lparr>csprngCalls = 0, mathRandomCalls = 1,
     store = [compositeU uOne (mkLayer ''L1'' ''One'')]\<rparr>"

text \<open>
  Ten values of rarity 0.1, and a random source that gives 10000 first and 8000 from
  then on.
\<close>

definition tenth :: "nat \<Rightarrow> TraitValue" where
  "tenth n = mkValue (''V'' @ [char_of (48 + n)]) (1 / 10)"

definition tenTenths :: "TraitValue list" where
  "tenTenths = map tenth [0, 1, 2, 3, 4, 5, 6, 7, 8, 9]"

definition envC4 :: env where
  "envC4 = mkEnv 0 1 [traitA] [] [] (\<lambda>t. tenTenths)
     (\<lambda>k. if k = 0 then 10000 else 8000) (\<lambda>k. 0)"

section \<open>Rounding to doubles\<close>

lemma floor_rat_numeral_div:
  "\<lfloor>numeral a / (numeral b :: rat)\<rfloor> = numeral a div numeral b"
  using floor_divide_of_int_eq [of "numeral a" "numeral b", where ?'a = rat] by simp

lemma floor_rat_neg_numeral_div:
  "\<lfloor>- (numeral a / (numeral b :: rat))\<rfloor> = - numeral a div numeral b"
  using floor_divide_of_int_eq [of "- numeral a" "numeral b", where ?'a = rat] by simp

text \<open>The equations that evaluate a rounding at a given rational.\<close>

lemmas round_eval = roundD_def ulp_def binadeDown.simps binadeUp.simps roundHalfEven_def Let_def
  floor_rat_numeral_div floor_rat_neg_numeral_div

lemma roundD_0: "roundD 0 = Num 0"
  by (simp add: roundD_def roundHalfEven_def Let_def)

lemma roundD_1: "roundD 1 = Num 1"
  by (simp add: round_eval)

lemma roundD_half: "roundD (1 / 2) = Num (1 / 2)"
  by (simp add: round_eval)

lemma roundD_minus_1: "roundD (- 1) = Num (- 1)"
  by (simp add: round_eval)

lemma roundD_tenth: "roundD (1 / 10) = Num (3602879701896397 / 36028797018963968)"
  by (simp add: round_eval)

lemma roundD_four_fifths: "roundD (4 / 5) = Num (3602879701896397 / 4503599627370496)"
  by (simp add: round_eval)

lemma roundD_nine_tenths: "roundD (9 / 10) = Num (8106479329266893 / 9007199254740992)"
  by (simp add: round_eval)

lemmas round_examples = roundD_0 roundD_1 roundD_half roundD_minus_1 roundD_tenth
  roundD_nine_tenths

lemma roundHalfEven_le: "x \<le> of_int n \<Longrightarrow> roundHalfEven x \<le> n"
proof -
  assume le: "x \<le> of_int n"
  have f: "\<lfloor>x\<rfloor> \<le> n"
    using le by (simp add: floor_le_iff)
  have "\<lfloor>x\<rfloor> + 1 \<le> n" if "0 < x - of_int \<lfloor>x\<rfloor>"
  proof -
    have "of_int \<lfloor>x\<rfloor> < x" using that by simp
    then have "(of_int \<lfloor>x\<rfloor> :: rat) < of_int n" using le by simp
    then show ?thesis by simp
  qed
  then show ?thesis
    using f by (auto simp: roundHalfEven_def Let_def)
qed

lemma roundHalfEven_nonneg: "0 \<le> x \<Longrightarrow> 0 \<le> roundHalfEven x"
  by (auto simp: roundHalfEven_def Let_def intro: add_nonneg_nonneg)

lemma binadeDown_power: "\<exists>m. binadeDown n x (1 / 2 ^ k) = 1 / 2 ^ m"
proof (induction n arbitrary: x k)
  case 0
  show ?case by (subst binadeDown.simps) auto
next
  case (Suc n)
  show ?case
  proof (cases "1 \<le> x")
    case True
    then show ?thesis by (subst binadeDown.simps) auto
  next
    case False
    have "(1 :: rat) / 2 ^ k / 2 = 1 / 2 ^ Suc k" by simp
    then have "binadeDown (Suc n) x (1 / 2 ^ k) = binadeDown n (2 * x) (1 / 2 ^ Suc k)"
      using False by (subst binadeDown.simps) (simp add: mult.commute)
    then show ?thesis using Suc.IH [of "2 * x" "Suc k"] by simp
  qed
qed

text \<open>A quotient between 0 and 1 rounds to a double between 0 and 1.\<close>

lemma roundD_unit:
  assumes "0 \<le> x" and "x \<le> 1"
  shows "\<exists>y. roundD x = Num y \<and> 0 \<le> y \<and> y \<le> 1"
proof (cases "x = 1")
  case True
  then show ?thesis by (simp add: roundD_1)
next
  case False
  then have lt: "x < 1" using assms(2) by simp
  obtain m where m: "binadeDown 1022 x (1 / 2 ^ 52) = 1 / 2 ^ m"
    using binadeDown_power by blast
  have q: "ulp \<bar>x\<bar> = 1 / 2 ^ m"
    using assms(1) lt m by (simp add: ulp_def)
  let ?n = "roundHalfEven (x * 2 ^ m)"
  have "x * 2 ^ m \<le> of_int (2 ^ m)"
    using assms(2) by (simp add: mult_le_cancel_right1)
  then have up: "?n \<le> 2 ^ m"
    by (rule roundHalfEven_le)
  have "0 \<le> x * 2 ^ m" using assms(1) by simp
  then have lo: "0 \<le> ?n"
    by (rule roundHalfEven_nonneg)
  let ?y = "of_int ?n / (2 ^ m :: rat)"
  have y0: "0 \<le> ?y" using lo by simp
  have "(of_int ?n :: rat) \<le> of_int (2 ^ m)"
    using up by (simp only: of_int_le_iff)
  then have y1: "?y \<le> 1" by (simp add: divide_le_eq)
  have big: "(1 :: rat) < 2 ^ 1024" by simp
  have nb: "\<not> 2 ^ 1024 \<le> ?y" using y1 big by linarith
  have ns: "\<not> ?y \<le> - (2 ^ 1024)" using y0 big by linarith
  have "roundD x = Num ?y"
    using nb ns by (simp add: roundD_def q Let_def)
  then show ?thesis using y0 y1 by blast
qed

section \<open>The sampler: first segment reached, bounded retries\<close>

lemma find_map_comp:
  "find P (map f xs) = map_option f (find (P \<circ> f) xs)"
  by (induction xs) auto

lemma find_upt_Suc:
  "find P [0..<Suc n] = (if P 0 then Some 0 else map_option Suc (find (P \<circ> Suc) [0..<n]))"
proof -
  have "[0..<Suc n] = 0 # map Suc [0..<n]"
    by (simp add: upt_conv_Cons map_Suc_upt del: upt_Suc)
  then show ?thesis
    by (simp add: find_map_comp del: upt_Suc)
qed

lemma segmentWalk_spec:
  "segmentWalk r acc vs =
     map_option (nth vs)
       (find (\<lambda>k. jsLe r (foldl jsAdd acc (map tv_rarity (take (Suc k) vs)))) [0..<length vs])"
proof (induction vs arbitrary: acc)
  case Nil
  show ?case by simp
next
  case (Cons v vs)
  have shift: "(\<lambda>k. jsLe r (foldl jsAdd acc (map tv_rarity (take (Suc k) (v # vs))))) \<circ> Suc =
      (\<lambda>k. jsLe r (foldl jsAdd (jsAdd acc (tv_rarity v)) (map tv_rarity (take (Suc k) vs))))"
    by (simp add: fun_eq_iff)
  show ?case
    unfolding length_Cons find_upt_Suc shift
    by (simp add: Cons.IH Let_def option.map_comp comp_def)
qed

lemma randomValue_loop_stop:
  "maxAttempts \<le> attempts \<Longrightarrow> randomValue_loop e vals x attempts w = (None, w)"
  by (subst randomValue_loop.simps) simp

lemma randomValue_loop_retry:
  "\<not> maxAttempts \<le> attempts \<Longrightarrow>
   randomNumber e TRAITVALUES_RARITY_MAX_PRECISION w = (r, w1) \<Longrightarrow>
   x \<noteq> None \<and> map_option tv_id (segmentWalk r (Num 0) vals) = x \<Longrightarrow>
   randomValue_loop e vals x attempts w = randomValue_loop e vals x (Suc attempts) w1"
  by (subst randomValue_loop.simps) (simp add: Let_def)

lemma randomValue_loop_exit:
  "\<not> maxAttempts \<le> attempts \<Longrightarrow>
   randomNumber e TRAITVALUES_RARITY_MAX_PRECISION w = (r, w1) \<Longrightarrow>
   \<not> (x \<noteq> None \<and> map_option tv_id (segmentWalk r (Num 0) vals) = x) \<Longrightarrow>
   randomValue_loop e vals x attempts w = (segmentWalk r (Num 0) vals, w1)"
  by (subst randomValue_loop.simps) (auto simp: Let_def)

lemma randomNumber_calls:
  "randomNumber e p w = (r, w1) \<Longrightarrow> w1 = w\<lparr>csprngCalls := Suc (csprngCalls w)\<rparr>"
  by (auto simp: randomNumber_def Let_def)

lemma segmentWalk_mem:
  "segmentWalk r acc vals = Some u \<Longrightarrow> u \<in> set vals"
  by (induction vals arbitrary: acc) (auto simp: Let_def split: if_splits)



lemma randomValue_loop_mem:
  "fst (randomValue_loop e vals x attempts w) = Some v \<Longrightarrow> v \<in> set vals"
proof (induction e vals x attempts w rule: randomValue_loop.induct)
  case (1 e vals x attempts w)
  show ?case
  proof (cases "maxAttempts \<le> attempts")
    case True
    then show ?thesis using "1.prems" by (simp add: randomValue_loop_stop)
  next
    case False
    obtain r w1 where rn: "randomNumber e TRAITVALUES_RARITY_MAX_PRECISION w = (r, w1)"
      by (cases "randomNumber e TRAITVALUES_RARITY_MAX_PRECISION w")
    show ?thesis
    proof (cases "x \<noteq> None \<and> map_option tv_id (segmentWalk r (Num 0) vals) = x")
      case True
      show ?thesis
        using "1.IH" [OF False rn [symmetric] refl True] "1.prems"
        by (simp add: randomValue_loop_retry [OF False rn True])
    next
      case no: False
      show ?thesis
        using "1.prems" segmentWalk_mem [of r "Num 0" vals v]
        by (simp add: randomValue_loop_exit [OF False rn no])
    qed
  qed
qed

lemma randomValue_loop_store:
  "store (snd (randomValue_loop e vals x attempts w)) = store w"
proof (induction e vals x attempts w rule: randomValue_loop.induct)
  case (1 e vals x attempts w)
  show ?case
  proof (cases "maxAttempts \<le> attempts")
    case True
    then show ?thesis by (simp add: randomValue_loop_stop)
  next
    case False
    obtain r w1 where rn: "randomNumber e TRAITVALUES_RARITY_MAX_PRECISION w = (r, w1)"
      by (cases "randomNumber e TRAITVALUES_RARITY_MAX_PRECISION w")
    have w1: "store w1 = store w"
      using randomNumber_calls [OF rn] by simp
    show ?thesis
    proof (cases "x \<noteq> None \<and> map_option tv_id (segmentWalk r (Num 0) vals) = x")
      case True
      show ?thesis
        using "1.IH" [OF False rn [symmetric] refl True] w1
        by (simp add: randomValue_loop_retry [OF False rn True])
    next
      case no: False
      show ?thesis
        using w1 by (simp add: randomValue_loop_exit [OF False rn no])
    qed
  qed
qed

lemma randomValue_store: "store (snd (randomValue e vals u x w)) = store w"
  by (simp add: randomValue_def randomValue_loop_store Let_def)

lemma atFloor_mem: "atFloor xs x = Some v \<Longrightarrow> v \<in> set xs"
  by (auto simp: atFloor_def nth_opt_def split: jsnum.splits if_splits)

lemma randomValue_mem: "fst (randomValue e vals u x w) = Some v \<Longrightarrow> v \<in> set vals"
  by (auto simp: randomValue_def Let_def randomValue_loop_mem atFloor_mem split: if_splits)

text \<open>
  The model on two inputs where rounding decides: with the rarities 0.1, 0.7, 0.2 and the
  fraction 0.8 the running sum after the second value is 0.7999999999999999, so the third
  value is returned; with 0.3, 0.3, 0.3, 0.1 and the fraction 1 the last running sum is
  0.9999999999999999, so the result is null.
\<close>

lemma sampler_rounding_examples:
  "segmentWalk (roundD (8 / 10)) (Num 0)
     [mkValue ''a'' (1 / 10), mkValue ''b'' (7 / 10), mkValue ''c'' (2 / 10)] =
     Some (mkValue ''c'' (2 / 10))"
  "segmentWalk (roundD 1) (Num 0)
     [mkValue ''a'' (3 / 10), mkValue ''b'' (3 / 10), mkValue ''c'' (3 / 10),
      mkValue ''d'' (1 / 10)] = None"
  by (simp_all add: mkValue_def round_eval)

text \<open>
  Claim C4 fails as stated when the cumulative sum is the sum of the weights. The ten
  values have rarity 0.1 each. With the fraction 1 the sum of the ten rarities reaches
  the fraction, so the tenth value is the first whose cumulative sum does; the sum the
  code accumulates is 0.9999999999999999 and \<^verbatim>\<open>randomValue\<close> returns null. With the
  fraction 0.8 the sum of the first eight rarities reaches the fraction; the sum the code
  accumulates after eight values is 0.7999999999999999 and \<^verbatim>\<open>randomValue\<close> returns the
  ninth value.
\<close>

theorem C4_counterexample:
  "drawnFraction envC4 world0 = Num 1 \<and>
   firstReachingExact (drawnFraction envC4 world0) tenTenths = Some (tenth 9) \<and>
   fst (randomValue envC4 tenTenths False None world0) = None \<and>
   drawnFraction envC4 (world0\<lparr>csprngCalls := 1\<rparr>) = roundD (4 / 5) \<and>
   firstReachingExact (drawnFraction envC4 (world0\<lparr>csprngCalls := 1\<rparr>)) tenTenths =
     Some (tenth 7) \<and>
   fst (randomValue envC4 tenTenths False None (world0\<lparr>csprngCalls := 1\<rparr>)) = Some (tenth 8)"
proof -
  let ?w1 = "world0\<lparr>csprngCalls := 1\<rparr>"
  have frac: "drawnFraction envC4 world0 = Num 1"
    by (simp add: drawnFraction_def fractionAt_def envC4_def mkEnv_def world0_def roundD_1)
  have frac1: "drawnFraction envC4 ?w1 = roundD (4 / 5)"
    by (simp add: drawnFraction_def fractionAt_def envC4_def mkEnv_def world0_def)
  have exact: "firstReachingExact (Num 1) tenTenths = Some (tenth 9)"
    by (simp add: firstReachingExact_def exactCumulativeRarity_def exactRarity_def tenTenths_def
        tenth_def mkValue_def roundD_tenth upt_rec_numeral)
  have exact1: "firstReachingExact (roundD (4 / 5)) tenTenths = Some (tenth 7)"
    by (simp add: firstReachingExact_def exactCumulativeRarity_def exactRarity_def tenTenths_def
        tenth_def mkValue_def roundD_tenth roundD_four_fifths upt_rec_numeral)
  have rn: "randomNumber envC4 TRAITVALUES_RARITY_MAX_PRECISION world0 =
      (Num 1, world0\<lparr>csprngCalls := Suc (csprngCalls world0)\<rparr>)"
    by (simp add: randomNumber_def TRAITVALUES_RARITY_MAX_PRECISION_def envC4_def mkEnv_def
        world0_def roundD_1 Let_def)
  have rn1: "randomNumber envC4 TRAITVALUES_RARITY_MAX_PRECISION ?w1 =
      (roundD (4 / 5), ?w1\<lparr>csprngCalls := Suc (csprngCalls ?w1)\<rparr>)"
    by (simp add: randomNumber_def TRAITVALUES_RARITY_MAX_PRECISION_def envC4_def mkEnv_def
        world0_def Let_def)
  have walk: "segmentWalk (Num 1) (Num 0) tenTenths = None"
    by (simp add: tenTenths_def tenth_def mkValue_def roundD_tenth) (simp add: round_eval)
  have walk1: "segmentWalk (roundD (4 / 5)) (Num 0) tenTenths = Some (tenth 8)"
    by (simp add: tenTenths_def tenth_def mkValue_def roundD_tenth roundD_four_fifths)
      (simp add: round_eval)
  have r0: "randomValue envC4 tenTenths False None world0 =
      (None, world0\<lparr>csprngCalls := Suc (csprngCalls world0)\<rparr>)"
    by (simp add: randomValue_def randomValue_loop.simps [of _ _ _ 0] maxAttempts_def rn walk)
  have r1: "randomValue envC4 tenTenths False None ?w1 =
      (Some (tenth 8), ?w1\<lparr>csprngCalls := Suc (csprngCalls ?w1)\<rparr>)"
    by (simp add: randomValue_def randomValue_loop.simps [of _ _ _ 0] maxAttempts_def rn1 walk1
        del: One_nat_def)
  show ?thesis
    by (simp only: frac frac1 exact exact1 r0 r1 fst_conv simp_thms)
qed

text \<open>
  Claim C4, amended. On a trait that is not always-unique, one attempt of the sampler
  walks the value sequence and returns the first value whose running sum of rarities,
  added one after the other from 0 in double arithmetic as the code adds them, is at
  least the drawn fraction, and null when no running sum reaches it; without an excluded
  id, \<^verbatim>\<open>randomValue\<close> makes exactly one such attempt and returns its result.
\<close>

theorem C4_randomValue_first_running_sum:
  "segmentWalk r (Num 0) values = firstReaching r values \<and>
   randomValue e values False None w =
     (firstReaching (drawnFraction e w) values, w\<lparr>csprngCalls := Suc (csprngCalls w)\<rparr>)"
proof -
  have walk: "\<And>q. segmentWalk q (Num 0) values = firstReaching q values"
    by (simp add: segmentWalk_spec firstReaching_def cumulativeRarity_def)
  have "randomValue e values False None w =
      (segmentWalk (drawnFraction e w) (Num 0) values, w\<lparr>csprngCalls := Suc (csprngCalls w)\<rparr>)"
    by (simp add: randomValue_def randomValue_loop.simps [of _ _ _ 0] randomNumber_def
        drawnFraction_def fractionAt_def maxAttempts_def TRAITVALUES_RARITY_MAX_PRECISION_def
        Let_def)
  then show ?thesis
    using walk by simp
qed




section \<open>The conflict resolver\<close>

lemma findIndex_None_iff: "findIndex P xs = None \<longleftrightarrow> (\<forall>x\<in>set xs. \<not> P x)"
  by (induction xs) auto

lemma findIndex_Some:
  "findIndex P xs = Some i \<Longrightarrow> i < length xs \<and> P (xs ! i) \<and> (\<forall>j<i. \<not> P (xs ! j))"
proof (induction xs arbitrary: i)
  case Nil
  then show ?case by simp
next
  case (Cons x xs)
  show ?case
  proof (cases "P x")
    case True
    then show ?thesis using Cons.prems by auto
  next
    case False
    then obtain k where k: "findIndex P xs = Some k" "i = Suc k"
      using Cons.prems by auto
    have "k < length xs \<and> P (xs ! k) \<and> (\<forall>j<k. \<not> P (xs ! j))"
      using Cons.IH [OF k(1)] .
    then show ?thesis
      using False k(2) by (auto simp: less_Suc_eq_0_disj)
  qed
qed

lemma update_distinct_key:
  assumes d: "distinct (map key xs)" and i: "i < length xs"
  shows "xs[i := f (xs ! i)] = map (\<lambda>p. if key p = key (xs ! i) then f p else p) xs"
proof (rule nth_equalityI)
  show "length (xs[i := f (xs ! i)]) = length (map (\<lambda>p. if key p = key (xs ! i) then f p else p) xs)"
    by simp
next
  fix j
  assume "j < length (xs[i := f (xs ! i)])"
  then have j: "j < length xs" by simp
  show "xs[i := f (xs ! i)] ! j = map (\<lambda>p. if key p = key (xs ! i) then f p else p) xs ! j"
  proof (cases "j = i")
    case True
    then show ?thesis using i by simp
  next
    case False
    have "(map key xs ! j = map key xs ! i) = (j = i)"
      using nth_eq_iff_index_eq [OF d, of j i] i j by simp
    then have "key (xs ! j) \<noteq> key (xs ! i)"
      using i j False by simp
    then show ?thesis using False j by simp
  qed
qed

lemma resolveConflict_dropFirst_match:
  assumes dist: "distinct (map (\<lambda>p. t_id (trait p)) pairs)"
    and a: "\<exists>p\<in>set pairs. pairIs a red p"
    and b: "\<exists>q\<in>set pairs. pairIs b green q"
  shows "resolveConflict e d (dropFirstConflict a red b green) pairs w =
     Inr (map (dropValueOf a) pairs, w)"
proof -
  let ?c = "dropFirstConflict a red b green"
  have c: "c_trait1Id ?c = a" "c_trait2Id ?c = b" "c_trait1ValueId ?c = Some red"
    "c_trait2ValueId ?c = Some green" "c_resolutionType ?c = Trait1None"
    by (simp_all add: dropFirstConflict_def)
  obtain i1 where i1: "findIndex (\<lambda>pair. t_id (trait pair) = a) pairs = Some i1"
    using a by (cases "findIndex (\<lambda>pair. t_id (trait pair) = a) pairs")
      (auto simp: findIndex_None_iff pairIs_def)
  obtain i2 where i2: "findIndex (\<lambda>pair. t_id (trait pair) = b) pairs = Some i2"
    using b by (cases "findIndex (\<lambda>pair. t_id (trait pair) = b) pairs")
      (auto simp: findIndex_None_iff pairIs_def)
  obtain k1 where v1: "findIndex (\<lambda>pair. t_id (trait pair) = a \<and>
      map_option tv_id (traitValue pair) = Some red) pairs = Some k1"
    using a by (cases "findIndex (\<lambda>pair. t_id (trait pair) = a \<and>
      map_option tv_id (traitValue pair) = Some red) pairs")
      (auto simp: findIndex_None_iff pairIs_def)
  obtain k2 where v2: "findIndex (\<lambda>pair. t_id (trait pair) = b \<and>
      map_option tv_id (traitValue pair) = Some green) pairs = Some k2"
    using b by (cases "findIndex (\<lambda>pair. t_id (trait pair) = b \<and>
      map_option tv_id (traitValue pair) = Some green) pairs")
      (auto simp: findIndex_None_iff pairIs_def)
  have at: "i1 < length pairs" "t_id (trait (pairs ! i1)) = a"
    using findIndex_Some [OF i1] by simp_all
  have "pairs[i1 := (pairs ! i1)\<lparr>traitValue := None\<rparr>] =
      map (\<lambda>p. if t_id (trait p) = t_id (trait (pairs ! i1)) then p\<lparr>traitValue := None\<rparr> else p) pairs"
    using update_distinct_key [OF dist at(1), of "\<lambda>p. p\<lparr>traitValue := None\<rparr>"] .
  then have upd: "pairs[i1 := (pairs ! i1)\<lparr>traitValue := None\<rparr>] = map (dropValueOf a) pairs"
    using at(2) by (simp add: dropValueOf_def [abs_def])
  show ?thesis
    using v1 v2 by (simp add: resolveConflict_def c i1 i2 upd)
qed

lemma resolveConflict_dropFirst_skip:
  assumes "\<not> (\<exists>p\<in>set pairs. pairIs a red p) \<or> \<not> (\<exists>q\<in>set pairs. pairIs b green q)"
  shows "resolveConflict e d (dropFirstConflict a red b green) pairs w = Inr (pairs, w)"
proof -
  let ?c = "dropFirstConflict a red b green"
  have c: "c_trait1Id ?c = a" "c_trait2Id ?c = b" "c_trait1ValueId ?c = Some red"
    "c_trait2ValueId ?c = Some green" "c_resolutionType ?c = Trait1None"
    by (simp_all add: dropFirstConflict_def)
  have "findIndex (\<lambda>pair. t_id (trait pair) = a \<and>
      map_option tv_id (traitValue pair) = Some red) pairs = None \<or>
    findIndex (\<lambda>pair. t_id (trait pair) = b \<and>
      map_option tv_id (traitValue pair) = Some green) pairs = None"
    using assms by (auto simp: findIndex_None_iff pairIs_def)
  then show ?thesis
    by (auto simp: resolveConflict_def c split: option.splits)
qed

text \<open>
  Claim C6. A DropFirst conflict between value \<open>red\<close> of trait \<open>a\<close> and value \<open>green\<close> of
  trait \<open>b\<close>, on a draw with one pair per trait: when the draw holds both \<open>a = red\<close> and
  \<open>b = green\<close>, resolution sets the value of the pair of \<open>a\<close> to null and changes
  nothing else; when the draw lacks \<open>a = red\<close> or lacks \<open>b = green\<close> (the trait is absent
  or carries another value), the conflict is skipped and the draw comes back unchanged.
\<close>

theorem C6_dropFirst_resolution:
  "(distinct (map (\<lambda>p. t_id (trait p)) pairs) \<and> (\<exists>p\<in>set pairs. pairIs a red p) \<and>
      (\<exists>q\<in>set pairs. pairIs b green q) \<longrightarrow>
      resolveConflicts e pairs [dropFirstConflict a red b green] d w =
        Inr (map (dropValueOf a) pairs, w)) \<and>
   (\<not> (\<exists>p\<in>set pairs. pairIs a red p) \<or> \<not> (\<exists>q\<in>set pairs. pairIs b green q) \<longrightarrow>
      resolveConflicts e pairs [dropFirstConflict a red b green] d w = Inr (pairs, w))"
proof (intro conjI impI)
  assume match: "distinct (map (\<lambda>p. t_id (trait p)) pairs) \<and>
      (\<exists>p\<in>set pairs. pairIs a red p) \<and> (\<exists>q\<in>set pairs. pairIs b green q)"
  then have "resolveConflict e d (dropFirstConflict a red b green) pairs w =
      Inr (map (dropValueOf a) pairs, w)"
    using resolveConflict_dropFirst_match [of pairs a red b green e d w] by blast
  then show "resolveConflicts e pairs [dropFirstConflict a red b green] d w =
      Inr (map (dropValueOf a) pairs, w)"
    by simp
next
  assume "\<not> (\<exists>p\<in>set pairs. pairIs a red p) \<or> \<not> (\<exists>q\<in>set pairs. pairIs b green q)"
  then have "resolveConflict e d (dropFirstConflict a red b green) pairs w = Inr (pairs, w)"
    by (rule resolveConflict_dropFirst_skip)
  then show "resolveConflicts e pairs [dropFirstConflict a red b green] d w = Inr (pairs, w)"
    by simp
qed

text \<open>The definitions of the example data, for evaluation.\<close>

lemmas ex_defs = mkPair_def traitA_def traitB_def traitU_def aRed_def aBlue_def bGreen_def bYellow_def uOnly_def
  mkTrait_def mkValue_def mkLayer_def mkEnv_def world0_def

theorem C6_dropFirst_resolution_witness:
  "resolveConflicts envC7 drawRG [dropFirstConflict ''A'' ''Red'' ''B'' ''Green''] [] world0 =
     Inr ([mkPair traitA None, mkPair traitB (Some bGreen)], world0) \<and>
   resolveConflicts envC7 drawRY [dropFirstConflict ''A'' ''Red'' ''B'' ''Green''] [] world0 =
     Inr (drawRY, world0)"
proof -
  have h1: "distinct (map (\<lambda>p. t_id (trait p)) drawRG) \<and> (\<exists>p\<in>set drawRG. pairIs ''A'' ''Red'' p) \<and>
      (\<exists>q\<in>set drawRG. pairIs ''B'' ''Green'' q)"
    by (simp add: drawRG_def pairIs_def mkPair_def traitA_def traitB_def aRed_def bGreen_def
        mkTrait_def mkValue_def)
  have h2: "\<not> (\<exists>q\<in>set drawRY. pairIs ''B'' ''Green'' q)"
    by (simp add: drawRY_def pairIs_def mkPair_def traitA_def traitB_def aRed_def bYellow_def
        mkTrait_def mkValue_def)
  have m: "map (dropValueOf ''A'') drawRG = [mkPair traitA None, mkPair traitB (Some bGreen)]"
    by (simp add: drawRG_def dropValueOf_def mkPair_def traitA_def traitB_def mkTrait_def)
  show ?thesis
    using C6_dropFirst_resolution [of drawRG "''A''" "''Red''" "''B''" "''Green''" envC7 "[]" world0]
      C6_dropFirst_resolution [of drawRY "''A''" "''Red''" "''B''" "''Green''" envC7 "[]" world0]
      h1 h2 m by simp
qed

text \<open>
  On an always-unique trait the sampler's result does not depend on the excluded id.
\<close>

lemma randomValue_always_unique_ignores_exclusion:
  "randomValue e vals True x w = randomValue e vals True None w"
  by (simp add: randomValue_def)

text \<open>
  Claim C7 (the code differs). Trait \<open>U\<close> is always-unique and its pool holds the single
  value \<open>Only\<close>; the draw has \<open>U = Only\<close> and \<open>B = Green\<close>, and the conflict asks to
  randomize the first trait. The always-unique branch of \<^verbatim>\<open>randomValue\<close> returns before
  the excluded id is looked at, so the pair of \<open>U\<close> is overwritten with the very value that
  conflicted.
\<close>

theorem C7_always_unique_redraw_keeps_excluded:
  "c_trait1ValueId conflictC7 = Some (tv_id uOnly) \<and>
   resolveConflicts envC7 drawC7 [conflictC7] (prefetchTraitValues envC7) world0 =
     Inr ([mkPair traitU (Some uOnly), mkPair traitB (Some bGreen)],
          world0\<lparr>mathRandomCalls := 1\<rparr>)"
  by (simp add: resolveConflict_def envC7_def conflictC7_def drawC7_def prefetchTraitValues_def
      ex_defs randomValue_def atFloor_def roundD_half nth_opt_def Let_def)

section \<open>The layer planner\<close>





section \<open>The draw loop of one item\<close>

text \<open>
  The last pass of the draw loop never hands its draw on, whatever the uniqueness check
  answered.
\<close>

lemma drawUnused_last_attempt:
  "drawUnused e d (Suc 0) w =
     (case randomTraitValues e (traits e) d w of
        Inl err \<Rightarrow> Inl err
      | Inr (traitValuePairs, w1) \<Rightarrow> Inr (None, w1))"
  by (subst drawUnused.simps) (simp add: Let_def split: sum.splits)

text \<open>
  Claim C3 (the code differs). The store holds the combination \<open>A = Red\<close>; the first 19
  draws give \<open>Red\<close> again, the twentieth gives \<open>Blue\<close>, whose fingerprint is unused.
  \<^verbatim>\<open>generateArtworkForItem\<close> still returns null: the counter reaches 0 on the twentieth
  draw, and the loop breaks with \<^verbatim>\<open>failedToFindUnusedTraitPair\<close> set, before the answer
  of the uniqueness check is looked at.
\<close>

theorem C3_twentieth_draw_discarded:
  "randomTraitValues envC3 (traits envC3) (prefetchTraitValues envC3)
       (worldC3\<lparr>csprngCalls := 19\<rparr>) =
     Inr ([mkPair traitA (Some aBlue)], worldC3\<lparr>csprngCalls := 20\<rparr>) \<and>
   isUniqueTraitsHash (traitsHash [mkPair traitA (Some aBlue)]) (worldC3\<lparr>csprngCalls := 20\<rparr>) \<and>
   generateArtworkForItem envC3 1 (prefetchTraitValues envC3)
       (traitValueIdToImageLayers (imageLayers envC3)) worldC3 =
     Inr (None, worldC3\<lparr>csprngCalls := 20\<rparr>)"
  by (simp add: generateArtworkForItem_def drawUnused.simps numRetries_def envC3_def worldC3_def
      usedRed_def prefetchTraitValues_def ex_defs randomValue_def randomValue_loop.simps
      randomNumber_def maxAttempts_def TRAITVALUES_RARITY_MAX_PRECISION_def traitsHash_def
      isUniqueTraitsHash_def round_examples Let_def)

section \<open>The batch loop: runs that never return\<close>

lemma generateLoop_diverges:
  assumes inv: "Inv e layerOf s"
    and step: "\<And>e layerOf s. Inv e layerOf s \<Longrightarrow>
      g_i s < endIndex e \<and> (\<exists>s1. generateStep e layerOf s = Inr s1 \<and> Inv e layerOf s1)"
  shows "generateLoop e layerOf s = None"
proof -
  have "\<not> Inv e layerOf s" if ret: "generateLoop e layerOf s = Some y" for y
  proof (rule generateLoop.raw_induct [OF _ ret])
    fix loop e layerOf s y
    assume IH: "\<And>e layerOf s y. loop e layerOf s = Some y \<Longrightarrow> \<not> Inv e layerOf s"
      and body: "(if g_i s < endIndex e
          then case generateStep e layerOf s of Inl err \<Rightarrow> Some (Inl err)
               | Inr s1 \<Rightarrow> loop e layerOf s1
          else Some (Inr s)) = Some y"
    show "\<not> Inv e layerOf s"
    proof
      assume i: "Inv e layerOf s"
      obtain s1 where s1: "g_i s < endIndex e" "generateStep e layerOf s = Inr s1" "Inv e layerOf s1"
        using step [OF i] by blast
      have "loop e layerOf s1 = Some y"
        using body s1(1,2) by simp
      then have "\<not> Inv e layerOf s1"
        by (rule IH)
      then show False using s1(3) by simp
    qed
  qed
  then show ?thesis
    using inv by (cases "generateLoop e layerOf s") auto
qed

lemma initialState_i: "g_i (initialState e w) = startIndex e"
  by (simp add: initialState_def)

lemma world0_fields:
  "csprngCalls world0 = 0" "mathRandomCalls world0 = 0" "store world0 = []"
  by (simp_all add: world0_def)

lemma envC2_fields:
  "traits (envC2 rnd) = [backgroundTrait]" "conflicts (envC2 rnd) = []"
  "imageLayers (envC2 rnd) = [redLayer]" "startIndex (envC2 rnd) = 0" "endIndex (envC2 rnd) = 3"
  "csprng (envC2 rnd) = rnd" "traitValuesAll (envC2 rnd) = (\<lambda>t. [redValue])"
  "sharp (envC2 rnd) = (\<lambda>paths itemIndex. SharpResolved)"
  "upload (envC2 rnd) = (\<lambda>itemIndex. Some ''url'')"
  by (simp_all add: envC2_def mkEnv_def)

lemma envC2_prefetch: "prefetchTraitValues (envC2 rnd) = [(''Background'', [redValue])]"
  by (simp add: prefetchTraitValues_def envC2_fields backgroundTrait_def mkTrait_def)

lemma envC2_randomValue:
  assumes "rnd (csprngCalls w) \<le> 10000"
  shows "randomValue (envC2 rnd) [redValue] False None w =
     (Some redValue, w\<lparr>csprngCalls := Suc (csprngCalls w)\<rparr>)"
proof -
  have "(of_nat (rnd (csprngCalls w)) :: rat) \<le> of_nat 10000"
    using assms by (simp only: of_nat_le_iff)
  then have "(of_nat (rnd (csprngCalls w)) :: rat) / 10000 \<le> 1"
    by simp
  moreover have "0 \<le> (of_nat (rnd (csprngCalls w)) :: rat) / 10000"
    by simp
  ultimately obtain y where y: "roundD (of_nat (rnd (csprngCalls w)) / 10000) = Num y" "y \<le> 1"
    using roundD_unit by blast
  then show ?thesis
    by (simp add: randomValue_def randomValue_loop.simps [of _ _ _ 0] randomNumber_def
        envC2_fields maxAttempts_def TRAITVALUES_RARITY_MAX_PRECISION_def Let_def redValue_def
        mkValue_def roundD_1)
qed

lemma envC2_randomTraitValues:
  assumes "rnd (csprngCalls w) \<le> 10000"
  shows "randomTraitValues (envC2 rnd) [backgroundTrait] [(''Background'', [redValue])] w =
     Inr ([redPair], w\<lparr>csprngCalls := Suc (csprngCalls w)\<rparr>)"
proof -
  have t: "t_id backgroundTrait = ''Background''" "t_isAlwaysUnique backgroundTrait = False"
    by (simp_all add: backgroundTrait_def mkTrait_def)
  show ?thesis
    using assms by (simp add: t envC2_randomValue redPair_def)
qed

lemma redPair_hash: "traitsHash [redPair] = redHash"
  by (simp add: traitsHash_def redPair_def redHash_def backgroundTrait_def mkTrait_def redValue_def mkValue_def)

lemma envC2_drawUnused_exhausts:
  assumes bound: "\<forall>k. rnd k \<le> 10000"
  shows "redHash \<in> set (map ic_traitsHash (store w)) \<Longrightarrow>
     drawUnused (envC2 rnd) [(''Background'', [redValue])] (Suc n) w =
       Inr (None, w\<lparr>csprngCalls := csprngCalls w + Suc n\<rparr>)"
proof (induction n arbitrary: w)
  case 0
  have rt: "randomTraitValues (envC2 rnd) [backgroundTrait] [(''Background'', [redValue])] w =
      Inr ([redPair], w\<lparr>csprngCalls := Suc (csprngCalls w)\<rparr>)"
    using envC2_randomTraitValues bound by blast
  show ?case
    by (subst drawUnused.simps) (simp add: envC2_fields rt Let_def del: randomTraitValues.simps)
next
  case (Suc n)
  let ?w1 = "w\<lparr>csprngCalls := Suc (csprngCalls w)\<rparr>"
  have rt: "randomTraitValues (envC2 rnd) [backgroundTrait] [(''Background'', [redValue])] w =
      Inr ([redPair], ?w1)"
    using envC2_randomTraitValues bound by blast
  have used: "redHash \<in> set (map ic_traitsHash (store ?w1))"
    using Suc.prems by simp
  have "drawUnused (envC2 rnd) [(''Background'', [redValue])] (Suc (Suc n)) w =
      drawUnused (envC2 rnd) [(''Background'', [redValue])] (Suc n) ?w1"
    using used
    by (subst drawUnused.simps)
      (simp add: envC2_fields rt Let_def redPair_hash isUniqueTraitsHash_def
        del: randomTraitValues.simps)
  then show ?case
    using Suc.IH [OF used] by simp
qed

lemma stuckC2_step:
  assumes bound: "\<forall>k. rnd k \<le> 10000" and stuck: "stuckC2 rnd e layerOf s"
  shows "g_i s < endIndex e \<and> (\<exists>s1. generateStep e layerOf s = Inr s1 \<and> stuckC2 rnd e layerOf s1)"
proof -
  have e: "e = envC2 rnd" and i: "g_i s = 1" and d: "g_traitValues s = [(''Background'', [redValue])]"
    and used: "redHash \<in> set (map ic_traitsHash (store (g_world s)))"
    using stuck by (simp_all add: stuckC2_def)
  have draw: "drawUnused (envC2 rnd) [(''Background'', [redValue])] numRetries (g_world s) =
      Inr (None, (g_world s)\<lparr>csprngCalls := csprngCalls (g_world s) + 20\<rparr>)"
    using envC2_drawUnused_exhausts [OF bound used, of 19] by (simp add: numRetries_def)
  have "generateStep e layerOf s =
      Inr (s\<lparr>g_world := (g_world s)\<lparr>csprngCalls := csprngCalls (g_world s) + 20\<rparr>\<rparr>)"
    by (simp add: generateStep_def generateArtworkForItem_def e d draw)
  moreover have "stuckC2 rnd e layerOf
      (s\<lparr>g_world := (g_world s)\<lparr>csprngCalls := csprngCalls (g_world s) + 20\<rparr>\<rparr>)"
    using stuck by (simp add: stuckC2_def)
  ultimately show ?thesis
    using e i by (simp add: envC2_fields)
qed

lemma envC2_first_item:
  assumes bound: "\<forall>k. rnd k \<le> 10000"
  shows "\<exists>s1. generateStep (envC2 rnd) (traitValueIdToImageLayers [redLayer])
        (initialState (envC2 rnd) world0) = Inr s1 \<and>
      stuckC2 rnd (envC2 rnd) (traitValueIdToImageLayers [redLayer]) s1"
proof -
  have rt: "randomTraitValues (envC2 rnd) [backgroundTrait] [(''Background'', [redValue])] world0 =
      Inr ([redPair], world0\<lparr>csprngCalls := Suc (csprngCalls world0)\<rparr>)"
    using envC2_randomTraitValues bound by blast
  have draw: "drawUnused (envC2 rnd) [(''Background'', [redValue])] numRetries world0 =
      Inr (Some [redPair], world0\<lparr>csprngCalls := Suc (csprngCalls world0)\<rparr>)"
    by (subst drawUnused.simps)
      (simp add: envC2_fields rt Let_def numRetries_def isUniqueTraitsHash_def world0_fields
        del: randomTraitValues.simps)
  have layer: "attachImageLayer (traitValueIdToImageLayers [redLayer]) redPair =
      redPair\<lparr>imageLayer := Some redLayer\<rparr>"
    by (simp add: attachImageLayer_def traitValueIdToImageLayers_def redPair_def redLayer_def
        mkLayer_def redValue_def mkValue_def)
  have hash: "traitsHash [redPair\<lparr>imageLayer := Some redLayer\<rparr>] = redHash"
    by (simp add: traitsHash_def redPair_def redHash_def backgroundTrait_def mkTrait_def redValue_def
        mkValue_def)
  have layers: "sortedImageLayersInjectingCompanions [redPair\<lparr>imageLayer := Some redLayer\<rparr>]
      [redLayer] = [redLayer]"
    by (simp add: sortedImageLayersInjectingCompanions_def orderedImageLayerPairs_def
        imageLayerPairs_def emitPair_def redLayer_def mkLayer_def)
  have comp: "compositeImages (envC2 rnd) [Some (downloadPathForImageLayer (envC2 rnd) redLayer)] 0 =
      Inr True"
    by (simp add: compositeImages_def List.map_filter_simps downloadPathForImageLayer_def
        layerDownloadPath_def projectDownloadPath_def envC2_fields)
  have item: "generateArtworkForItem (envC2 rnd) 0 [(''Background'', [redValue])]
      (traitValueIdToImageLayers [redLayer]) world0 =
      Inr (Some \<lparr>ic_externalURL = Some ''url'',
                 ic_traits = [redPair\<lparr>imageLayer := Some redLayer\<rparr>],
                 ic_traitsHash = redHash\<rparr>, world0\<lparr>csprngCalls := Suc (csprngCalls world0)\<rparr>)"
    by (simp add: generateArtworkForItem_def draw envC2_fields layer sortTraitValuePairs_def
        layers comp hash Let_def)
  have rem: "removeUsedAlwaysUniqueTraitValues [backgroundTrait] [(''Background'', [redValue])] c =
      Inr [(''Background'', [redValue])]" for c
    by (simp add: backgroundTrait_def mkTrait_def)
  show ?thesis
    by (simp add: generateStep_def initialState_def envC2_prefetch envC2_fields item create_def
        rem stuckC2_def del: removeUsedAlwaysUniqueTraitValues.simps)
qed

text \<open>
  Claim C2 (the code differs). The collection of the specification's end-to-end scenario:
  one trait with the single value \<open>Red\<close> of rarity 1, the batch \<open>[0, 3)\<close>. Item 0 is
  produced. At index 1 every draw is \<open>Red\<close> again, \<^verbatim>\<open>generateArtworkForItem\<close> gives null
  after its 20 draws, and the \<^verbatim>\<open>continue\<close> returns to the loop test without advancing
  \<^verbatim>\<open>i\<close>: the index is not skipped, no null is pushed, and \<^verbatim>\<open>generate\<close> never returns,
  whatever numbers between 0 and 10000 the random source gives.
\<close>

theorem C2_generate_never_returns:
  assumes bound: "\<forall>k. rnd k \<le> 10000"
  shows "generate (envC2 rnd) world0 = None"
proof -
  let ?lo = "traitValueIdToImageLayers [redLayer]"
  obtain s1 where s1: "generateStep (envC2 rnd) ?lo (initialState (envC2 rnd) world0) = Inr s1"
      "stuckC2 rnd (envC2 rnd) ?lo s1"
    using envC2_first_item [OF bound] by blast
  have "generateLoop (envC2 rnd) ?lo s1 = None"
    using s1(2) stuckC2_step [OF bound] by (rule generateLoop_diverges)
  then have "generateLoop (envC2 rnd) ?lo (initialState (envC2 rnd) world0) = None"
    by (subst generateLoop.simps) (simp add: s1(1) initialState_i envC2_fields)
  then show ?thesis
    by (simp add: generate_def envC2_fields envC2_prefetch)
qed

theorem C2_generate_never_returns_witness:
  "(\<forall>k. (\<lambda>k. 5000) k \<le> (10000::nat)) \<and> generate (envC2 (\<lambda>k. 5000)) world0 = None"
  using C2_generate_never_returns [of "\<lambda>k. 5000"] by simp

lemma envC10_fields:
  "traits (envC10 rnd) = [traitA]" "conflicts (envC10 rnd) = []"
  "imageLayers (envC10 rnd) = [mkLayer ''LR'' ''Red'']" "startIndex (envC10 rnd) = 0"
  "endIndex (envC10 rnd) = 1" "traitValuesAll (envC10 rnd) = (\<lambda>t. [])"
  by (simp_all add: envC10_def mkEnv_def)

lemma envC10_prefetch: "prefetchTraitValues (envC10 rnd) = [(''A'', [])]"
  by (simp add: prefetchTraitValues_def envC10_fields traitA_def mkTrait_def)

lemma stuckC10_step:
  assumes stuck: "stuckC10 rnd e layerOf s"
  shows "g_i s < endIndex e \<and> (\<exists>s1. generateStep e layerOf s = Inr s1 \<and> stuckC10 rnd e layerOf s1)"
proof -
  have e: "e = envC10 rnd" and i: "g_i s = 0" and d: "g_traitValues s = [(''A'', [])]"
    and st: "store (g_world s) = []"
    using stuck by (simp_all add: stuckC10_def)
  let ?w1 = "(g_world s)\<lparr>csprngCalls := Suc (csprngCalls (g_world s))\<rparr>"
  have rt: "randomTraitValues (envC10 rnd) [traitA] [(''A'', [])] (g_world s) =
      Inr ([mkPair traitA None], ?w1)"
    by (simp add: traitA_def mkTrait_def mkPair_def randomValue_def
        randomValue_loop.simps [of _ _ _ 0] randomNumber_def maxAttempts_def Let_def)
  have draw: "drawUnused (envC10 rnd) [(''A'', [])] numRetries (g_world s) =
      Inr (Some [mkPair traitA None], ?w1)"
    by (subst drawUnused.simps)
      (simp add: envC10_fields rt Let_def numRetries_def isUniqueTraitsHash_def st
        del: randomTraitValues.simps)
  have item: "generateArtworkForItem (envC10 rnd) 0 [(''A'', [])] layerOf (g_world s) =
      Inr (None, ?w1)"
    by (simp add: generateArtworkForItem_def draw envC10_fields attachImageLayer_def mkPair_def
        sortTraitValuePairs_def sortedImageLayersInjectingCompanions_def orderedImageLayerPairs_def
        imageLayerPairs_def emitPair_def compositeImages_def List.map_filter_simps Let_def)
  have "generateStep e layerOf s = Inr (s\<lparr>g_world := ?w1\<rparr>)"
    by (simp add: generateStep_def e i d item)
  moreover have "stuckC10 rnd e layerOf (s\<lparr>g_world := ?w1\<rparr>)"
    using stuck by (simp add: stuckC10_def)
  ultimately show ?thesis
    using e i by (simp add: envC10_fields)
qed

text \<open>
  The guards of \<^verbatim>\<open>generate\<close>: without traits or without image layers the batch returns
  at once with no composites; the dictionary of trait values has an entry for every trait,
  so the guard in between fires only when there are no traits.
\<close>

lemma generate_early_return:
  "traits e = [] \<or> imageLayers e = [] \<Longrightarrow> generate e w = Some (Inr ([], w))"
  by (auto simp: generate_def)

lemma prefetchTraitValues_nonempty:
  "traits e \<noteq> [] \<Longrightarrow> prefetchTraitValues e \<noteq> []"
proof -
  have upd: "AList.update k v d \<noteq> []" for k :: string and v :: "TraitValue list" and d
    by (cases d) auto
  have keep: "d \<noteq> [] \<Longrightarrow>
      fold (\<lambda>t d. AList.update (t_id t) (traitValuesAll e t) d) ts d \<noteq> []" for ts d
    by (induction ts arbitrary: d) (simp_all add: upd)
  assume "traits e \<noteq> []"
  then obtain t ts where "traits e = t # ts"
    by (cases "traits e") auto
  then show ?thesis
    using keep [of "[(t_id t, traitValuesAll e t)]" ts] by (simp add: prefetchTraitValues_def)
qed

text \<open>
  Claim C10 (the code differs). One trait whose value list is empty, one image layer,
  the batch \<open>[0, 1)\<close>. The guard on \<^verbatim>\<open>Object.values(traitValues).length\<close> counts the
  dictionary's entries, one per trait, so it does not fire; every draw is the null
  combination, the compositor has nothing to compose, and the loop goes round at index 0
  for ever, whatever the random numbers are.
\<close>

theorem C10_empty_value_lists_never_return:
  "traits (envC10 rnd) \<noteq> [] \<and> imageLayers (envC10 rnd) \<noteq> [] \<and>
   list_all (\<lambda>t. traitValuesAll (envC10 rnd) t = []) (traits (envC10 rnd)) \<and>
   generate (envC10 rnd) world0 = None"
proof -
  have "stuckC10 rnd (envC10 rnd) (traitValueIdToImageLayers (imageLayers (envC10 rnd)))
      (initialState (envC10 rnd) world0)"
    by (simp add: stuckC10_def initialState_def envC10_fields envC10_prefetch world0_fields)
  then have "generateLoop (envC10 rnd) (traitValueIdToImageLayers (imageLayers (envC10 rnd)))
      (initialState (envC10 rnd) world0) = None"
    using stuckC10_step by (rule generateLoop_diverges)
  then show ?thesis
    by (simp add: generate_def envC10_fields envC10_prefetch)
qed

section \<open>The batch loop: what a draw and a composite carry\<close>

lemma randomTraitValues_result:
  "randomTraitValues e ts d w = Inr (ps, w') \<Longrightarrow>
   map trait ps = ts \<and> list_all (drawnFrom d) ps \<and> store w' = store w"
proof (induction ts arbitrary: w ps w')
  case Nil
  then show ?case by simp
next
  case (Cons t ts)
  obtain vs where vs: "map_of d (t_id t) = Some vs"
    using Cons.prems by (cases "map_of d (t_id t)") auto
  obtain v w1 where rv: "randomValue e vs (t_isAlwaysUnique t) None w = (v, w1)"
    by (cases "randomValue e vs (t_isAlwaysUnique t) None w")
  obtain ps1 where rest: "randomTraitValues e ts d w1 = Inr (ps1, w')"
    and ps: "ps = \<lparr>trait = t, traitValue = v, imageLayer = None\<rparr> # ps1"
    using Cons.prems vs rv by (auto split: sum.splits)
  have ih: "map trait ps1 = ts \<and> list_all (drawnFrom d) ps1 \<and> store w' = store w1"
    using Cons.IH [OF rest] .
  have w1: "store w1 = store w"
    using randomValue_store [of e vs "t_isAlwaysUnique t" None w] rv by simp
  have "drawnFrom d \<lparr>trait = t, traitValue = v, imageLayer = None\<rparr>"
    using randomValue_mem [of e vs "t_isAlwaysUnique t" None w] rv vs
    by (auto simp: drawnFrom_def split: option.splits)
  then show ?case
    using ih w1 ps by simp
qed

lemma drawUnused_result:
  "drawUnused e d n w = Inr (Some ps, w') \<Longrightarrow>
   map trait ps = traits e \<and> list_all (drawnFrom d) ps \<and> store w' = store w \<and>
   isUniqueTraitsHash (traitsHash ps) w'"
proof (induction e d n w rule: drawUnused.induct)
  case (1 e d n w)
  obtain qs w1 where rt: "randomTraitValues e (traits e) d w = Inr (qs, w1)"
    using "1.prems" by (subst (asm) drawUnused.simps) (auto split: sum.splits)
  have q: "map trait qs = traits e \<and> list_all (drawnFrom d) qs \<and> store w1 = store w"
    using randomTraitValues_result [OF rt] .
  have unfold: "drawUnused e d n w =
      (if n - 1 = 0 then Inr (None, w1)
       else if isUniqueTraitsHash (traitsHash qs) w1 then Inr (Some qs, w1)
       else drawUnused e d (n - 1) w1)"
    by (subst drawUnused.simps) (simp add: rt Let_def)
  show ?case
  proof (cases "n - 1 = 0")
    case True
    then show ?thesis using "1.prems" unfold by simp
  next
    case nz: False
    show ?thesis
    proof (cases "isUniqueTraitsHash (traitsHash qs) w1")
      case True
      then have "ps = qs" "w' = w1" using "1.prems" unfold nz by simp_all
      then show ?thesis using q True by simp
    next
      case False
      have rec: "drawUnused e d (n - 1) w1 = Inr (Some ps, w')"
        using "1.prems" unfold nz False by simp
      have "map trait ps = traits e \<and> list_all (drawnFrom d) ps \<and> store w' = store w1 \<and>
          isUniqueTraitsHash (traitsHash ps) w'"
        using "1.IH" [OF rt refl refl refl refl nz False rec] .
      then show ?thesis using q by simp
    qed
  qed
qed

lemma drawUnused_store:
  "drawUnused e d n w = Inr (r, w') \<Longrightarrow> store w' = store w"
proof (induction e d n w rule: drawUnused.induct)
  case (1 e d n w)
  obtain qs w1 where rt: "randomTraitValues e (traits e) d w = Inr (qs, w1)"
    using "1.prems" by (subst (asm) drawUnused.simps) (auto split: sum.splits)
  have q: "store w1 = store w"
    using randomTraitValues_result [OF rt] by simp
  have unfold: "drawUnused e d n w =
      (if n - 1 = 0 then Inr (None, w1)
       else if isUniqueTraitsHash (traitsHash qs) w1 then Inr (Some qs, w1)
       else drawUnused e d (n - 1) w1)"
    by (subst drawUnused.simps) (simp add: rt Let_def)
  show ?case
  proof (cases "n - 1 = 0 \<or> isUniqueTraitsHash (traitsHash qs) w1")
    case True
    then show ?thesis using "1.prems" unfold q by (auto split: if_splits)
  next
    case False
    then have nz: "n - 1 \<noteq> 0" and nu: "\<not> isUniqueTraitsHash (traitsHash qs) w1" by simp_all
    have rec: "drawUnused e d (n - 1) w1 = Inr (r, w')"
      using "1.prems" unfold nz nu by simp
    show ?thesis
      using "1.IH" [OF rt refl refl refl refl nz nu rec] q by simp
  qed
qed

lemma update_pair_result:
  assumes i: "i < length ps" and t: "trait q = trait (ps ! i)"
    and q: "list_all (drawnFrom d) ps \<Longrightarrow> drawnFrom d q"
  shows "map trait (ps[i := q]) = map trait ps \<and>
    (list_all (drawnFrom d) ps \<longrightarrow> list_all (drawnFrom d) (ps[i := q]))"
proof -
  have "map trait (ps[i := q]) = (map trait ps)[i := trait (ps ! i)]"
    using t by (simp add: map_update)
  also have "\<dots> = map trait ps"
    using i by (simp add: list_update_same_conv)
  finally have m: "map trait (ps[i := q]) = map trait ps" .
  have "list_all (drawnFrom d) (ps[i := q])" if a: "list_all (drawnFrom d) ps"
  proof -
    have "set (ps[i := q]) \<subseteq> insert q (set ps)"
      by (rule set_update_subset_insert)
    then show ?thesis
      using a q [OF a] by (auto simp: list_all_iff)
  qed
  then show ?thesis using m by simp
qed

lemma redraw_result:
  assumes i: "i < length ps" and look: "map_of d (t_id (trait (ps ! i))) = Some vs"
    and rv: "randomValue e vs u x w = (v, w1)"
  shows "map trait (ps[i := (ps ! i)\<lparr>traitValue := v\<rparr>]) = map trait ps \<and>
    (list_all (drawnFrom d) ps \<longrightarrow>
       list_all (drawnFrom d) (ps[i := (ps ! i)\<lparr>traitValue := v\<rparr>])) \<and>
    store w1 = store w"
proof -
  have "drawnFrom d ((ps ! i)\<lparr>traitValue := v\<rparr>)"
    using randomValue_mem [of e vs u x w] rv look
    by (auto simp: drawnFrom_def split: option.splits)
  then have "map trait (ps[i := (ps ! i)\<lparr>traitValue := v\<rparr>]) = map trait ps \<and>
    (list_all (drawnFrom d) ps \<longrightarrow>
       list_all (drawnFrom d) (ps[i := (ps ! i)\<lparr>traitValue := v\<rparr>]))"
    using update_pair_result [OF i, of "(ps ! i)\<lparr>traitValue := v\<rparr>" d] by simp
  moreover have "store w1 = store w"
    using randomValue_store [of e vs u x w] rv by simp
  ultimately show ?thesis by simp
qed

lemma resolveConflict_result:
  assumes res: "resolveConflict e d c ps w = Inr (ps', w')"
  shows "map trait ps' = map trait ps \<and>
    (list_all (drawnFrom d) ps \<longrightarrow> list_all (drawnFrom d) ps') \<and> store w' = store w"
proof (cases "findIndex (\<lambda>pair. t_id (trait pair) = c_trait1Id c) ps")
  case None
  then show ?thesis using res by (simp add: resolveConflict_def)
next
  case i1: (Some i1)
  show ?thesis
  proof (cases "findIndex (\<lambda>pair. t_id (trait pair) = c_trait2Id c) ps")
    case None
    then show ?thesis using res i1 by (simp add: resolveConflict_def)
  next
    case i2: (Some i2)
    have l1: "i1 < length ps" using findIndex_Some [OF i1] by simp
    have l2: "i2 < length ps" using findIndex_Some [OF i2] by simp
    let ?skip = "(c_trait1ValueId c \<noteq> None \<and>
             findIndex (\<lambda>pair. t_id (trait pair) = c_trait1Id c \<and>
                 map_option tv_id (traitValue pair) = c_trait1ValueId c) ps = None) \<or>
          (c_trait2ValueId c \<noteq> None \<and>
             findIndex (\<lambda>pair. t_id (trait pair) = c_trait2Id c \<and>
                 map_option tv_id (traitValue pair) = c_trait2ValueId c) ps = None)"
    show ?thesis
    proof (cases ?skip)
      case True
      then have "resolveConflict e d c ps w = Inr (ps, w)"
        unfolding resolveConflict_def i1 i2 by (simp only: option.case) auto
      then show ?thesis using res by simp
    next
      case False
      then have body: "resolveConflict e d c ps w =
        (case c_resolutionType c of
               Trait1None \<Rightarrow> Inr (ps[i1 := (ps ! i1)\<lparr>traitValue := None\<rparr>], w)
             | Trait2None \<Rightarrow> Inr (ps[i2 := (ps ! i2)\<lparr>traitValue := None\<rparr>], w)
             | Trait1Random \<Rightarrow>
                 (let pair1 = ps ! i1 in
                  case map_of d (t_id (trait pair1)) of
                    None \<Rightarrow> Inl TypeError
                  | Some values \<Rightarrow>
                      (case randomValue e values (t_isAlwaysUnique (trait pair1))
                              (map_option tv_id (traitValue pair1)) w of
                         (newRandomValue1, w1) \<Rightarrow>
                           Inr (ps[i1 := pair1\<lparr>traitValue := newRandomValue1\<rparr>], w1)))
             | Trait2Random \<Rightarrow>
                 (let pair2 = ps ! i2 in
                  case map_of d (t_id (trait pair2)) of
                    None \<Rightarrow> Inl TypeError
                  | Some values \<Rightarrow>
                      (case randomValue e values (t_isAlwaysUnique (trait pair2))
                              (map_option tv_id (traitValue pair2)) w of
                         (newRandomValue2, w1) \<Rightarrow>
                           Inr (ps[i2 := pair2\<lparr>traitValue := newRandomValue2\<rparr>], w1))))"
        unfolding resolveConflict_def i1 i2 by (simp only: option.case) auto
      have drop: "\<And>i. i < length ps \<Longrightarrow>
          map trait (ps[i := (ps ! i)\<lparr>traitValue := None\<rparr>]) = map trait ps \<and>
          (list_all (drawnFrom d) ps \<longrightarrow>
             list_all (drawnFrom d) (ps[i := (ps ! i)\<lparr>traitValue := None\<rparr>]))"
      proof -
        fix i assume i: "i < length ps"
        show "map trait (ps[i := (ps ! i)\<lparr>traitValue := None\<rparr>]) = map trait ps \<and>
          (list_all (drawnFrom d) ps \<longrightarrow>
             list_all (drawnFrom d) (ps[i := (ps ! i)\<lparr>traitValue := None\<rparr>]))"
          using update_pair_result [OF i, of "(ps ! i)\<lparr>traitValue := None\<rparr>" d]
          by (simp add: drawnFrom_def)
      qed
      show ?thesis
      proof (cases "c_resolutionType c")
        case Trait1None
        then show ?thesis using res body drop [OF l1] by auto
      next
        case Trait2None
        then show ?thesis using res body drop [OF l2] by auto
      next
        case Trait1Random
        obtain vs where vs: "map_of d (t_id (trait (ps ! i1))) = Some vs"
          using res body Trait1Random by (cases "map_of d (t_id (trait (ps ! i1)))") (auto simp: Let_def)
        obtain v w1 where rv: "randomValue e vs (t_isAlwaysUnique (trait (ps ! i1)))
            (map_option tv_id (traitValue (ps ! i1))) w = (v, w1)"
          by (cases "randomValue e vs (t_isAlwaysUnique (trait (ps ! i1)))
            (map_option tv_id (traitValue (ps ! i1))) w")
        have "ps' = ps[i1 := (ps ! i1)\<lparr>traitValue := v\<rparr>]" "w' = w1"
          using res body Trait1Random vs rv by (simp_all add: Let_def)
        then show ?thesis using redraw_result [OF l1 vs rv] by simp
      next
        case Trait2Random
        obtain vs where vs: "map_of d (t_id (trait (ps ! i2))) = Some vs"
          using res body Trait2Random by (cases "map_of d (t_id (trait (ps ! i2)))") (auto simp: Let_def)
        obtain v w1 where rv: "randomValue e vs (t_isAlwaysUnique (trait (ps ! i2)))
            (map_option tv_id (traitValue (ps ! i2))) w = (v, w1)"
          by (cases "randomValue e vs (t_isAlwaysUnique (trait (ps ! i2)))
            (map_option tv_id (traitValue (ps ! i2))) w")
        have "ps' = ps[i2 := (ps ! i2)\<lparr>traitValue := v\<rparr>]" "w' = w1"
          using res body Trait2Random vs rv by (simp_all add: Let_def)
        then show ?thesis using redraw_result [OF l2 vs rv] by simp
      qed
    qed
  qed
qed

lemma resolveConflicts_result:
  "resolveConflicts e ps cs d w = Inr (ps', w') \<Longrightarrow>
   map trait ps' = map trait ps \<and>
    (list_all (drawnFrom d) ps \<longrightarrow> list_all (drawnFrom d) ps') \<and> store w' = store w"
proof (induction cs arbitrary: ps w)
  case Nil
  then show ?case by simp
next
  case (Cons c cs)
  obtain ps1 w1 where one: "resolveConflict e d c ps w = Inr (ps1, w1)"
    and rest: "resolveConflicts e ps1 cs d w1 = Inr (ps', w')"
    using Cons.prems by (auto split: sum.splits)
  show ?case
    using resolveConflict_result [OF one] Cons.IH [OF rest] by simp
qed

lemma traitsHash_attach_sort:
  "traitsHash (sortTraitValuePairs (map (attachImageLayer layerOf) ps)) = traitsHash ps"
  by (simp add: traitsHash_def sortTraitValuePairs_def image_image attachImageLayer_def)

lemma trait_attach_sort:
  "mset (map trait (sortTraitValuePairs (map (attachImageLayer layerOf) ps))) = mset (map trait ps)"
proof -
  have "mset (sortTraitValuePairs (map (attachImageLayer layerOf) ps)) =
      mset (map (attachImageLayer layerOf) ps)"
    by (simp add: sortTraitValuePairs_def)
  then have "mset (map trait (sortTraitValuePairs (map (attachImageLayer layerOf) ps))) =
      mset (map trait (map (attachImageLayer layerOf) ps))"
    by (metis mset_map)
  then show ?thesis
    by (simp add: attachImageLayer_def comp_def)
qed

lemma attachImageLayer_keeps:
  "trait (attachImageLayer layerOf p) = trait p"
  "traitValue (attachImageLayer layerOf p) = traitValue p"
  by (simp_all add: attachImageLayer_def)

lemma drawnFrom_attach: "drawnFrom d (attachImageLayer layerOf p) = drawnFrom d p"
  by (simp add: drawnFrom_def attachImageLayer_keeps cong: option.case_cong)

lemma drawnFrom_attach_sort:
  "list_all (drawnFrom d) ps \<Longrightarrow>
   list_all (drawnFrom d) (sortTraitValuePairs (map (attachImageLayer layerOf) ps))"
  by (auto simp: list_all_iff sortTraitValuePairs_def drawnFrom_attach)

lemma generateArtworkForItem_result:
  assumes item: "generateArtworkForItem e i d layerOf w = Inr (r, w')"
  shows "store w' = store w \<and> (\<forall>c. r = Some c \<longrightarrow> producedFrom e d w c)"
proof -
  obtain dr w1 where draw: "drawUnused e d numRetries w = Inr (dr, w1)"
    using item by (cases "drawUnused e d numRetries w")
      (auto simp: generateArtworkForItem_def)
  have s1: "store w1 = store w"
    using drawUnused_store [OF draw] .
  show ?thesis
  proof (cases dr)
    case None
    then show ?thesis
      using item draw s1 by (simp add: generateArtworkForItem_def)
  next
    case (Some drawn)
    have dq: "map trait drawn = traits e \<and> list_all (drawnFrom d) drawn \<and> store w1 = store w \<and>
        isUniqueTraitsHash (traitsHash drawn) w1"
      using drawUnused_result [of e d numRetries w drawn w1] draw Some by simp
    obtain ps2 w2 where rc: "resolveConflicts e drawn (conflicts e) d w1 = Inr (ps2, w2)"
      using item draw Some
      by (cases "resolveConflicts e drawn (conflicts e) d w1")
        (auto simp: generateArtworkForItem_def)
    have rq: "map trait ps2 = map trait drawn \<and>
        (list_all (drawnFrom d) drawn \<longrightarrow> list_all (drawnFrom d) ps2) \<and> store w2 = store w1"
      using resolveConflicts_result [OF rc] .
    let ?sorted = "sortTraitValuePairs (map (attachImageLayer layerOf) ps2)"
    let ?c = "\<lparr>ic_externalURL = upload e i, ic_traits = ?sorted,
        ic_traitsHash = traitsHash ?sorted\<rparr>"
    have out: "(r, w') = (None, w2) \<or> (r, w') = (Some ?c, w2)"
      using item draw Some rc
      by (auto simp: generateArtworkForItem_def Let_def split: sum.splits if_splits)
    have w': "store w' = store w"
      using out rq s1 by auto
    have "producedFrom e d w ?c"
    proof -
      have a: "mset (map trait ?sorted) = mset (traits e)"
        using trait_attach_sort [of layerOf ps2] rq dq by simp
      have b: "list_all (drawnFrom d) ?sorted"
        using drawnFrom_attach_sort rq dq by blast
      have c: "isUniqueTraitsHash (traitsHash ?sorted) w" if "conflicts e = []"
      proof -
        have "ps2 = drawn" using rc that by simp
        then show ?thesis
          using dq s1 by (simp add: traitsHash_attach_sort isUniqueTraitsHash_def)
      qed
      show ?thesis
        using a b c by (simp add: producedFrom_def)
    qed
    then show ?thesis
      using out w' by auto
  qed
qed

lemma generateStep_result:
  assumes step: "generateStep e layerOf s = Inr s1"
  shows "(g_i s1 = g_i s \<and> g_traitValues s1 = g_traitValues s \<and>
          g_composites s1 = g_composites s \<and> store (g_world s1) = store (g_world s)) \<or>
         (\<exists>c. producedFrom e (g_traitValues s) (g_world s) c \<and> g_i s1 = Suc (g_i s) \<and>
              g_composites s1 = g_composites s @ [c] \<and>
              store (g_world s1) = store (g_world s) @ [c] \<and>
              removeUsedAlwaysUniqueTraitValues (traits e) (g_traitValues s) c =
                Inr (g_traitValues s1))"
proof -
  obtain r w1 where item:
      "generateArtworkForItem e (g_i s) (g_traitValues s) layerOf (g_world s) = Inr (r, w1)"
    using step
    by (cases "generateArtworkForItem e (g_i s) (g_traitValues s) layerOf (g_world s)")
      (auto simp: generateStep_def)
  have q: "store w1 = store (g_world s) \<and>
      (\<forall>c. r = Some c \<longrightarrow> producedFrom e (g_traitValues s) (g_world s) c)"
    using generateArtworkForItem_result [OF item] .
  show ?thesis
  proof (cases r)
    case None
    then have "s1 = s\<lparr>g_world := w1\<rparr>"
      using step item by (simp add: generateStep_def)
    then show ?thesis using q by simp
  next
    case (Some c)
    obtain remaining where rem:
        "removeUsedAlwaysUniqueTraitValues (traits e) (g_traitValues s) c = Inr remaining"
      using step item Some
      by (cases "removeUsedAlwaysUniqueTraitValues (traits e) (g_traitValues s) c")
        (auto simp: generateStep_def create_def)
    have "s1 = \<lparr>g_i = Suc (g_i s), g_traitValues = remaining,
        g_composites = g_composites s @ [c], g_world = w1\<lparr>store := store w1 @ [c]\<rparr>\<rparr>"
      using step item Some rem by (simp add: generateStep_def create_def)
    then show ?thesis
      using q Some rem by simp
  qed
qed

lemma generateLoop_reaches:
  assumes ret: "generateLoop e layerOf s = Some r"
  shows "\<forall>s0. reaches e layerOf s0 s \<longrightarrow>
   (case r of Inl err \<Rightarrow> True | Inr s' \<Rightarrow> reaches e layerOf s0 s' \<and> \<not> g_i s' < endIndex e)"
proof (rule generateLoop.raw_induct [OF _ ret])
  fix loop e layerOf s r
  assume IH: "\<And>e layerOf s r. loop e layerOf s = Some r \<Longrightarrow>
      \<forall>s0. reaches e layerOf s0 s \<longrightarrow>
        (case r of Inl err \<Rightarrow> True | Inr s' \<Rightarrow> reaches e layerOf s0 s' \<and> \<not> g_i s' < endIndex e)"
    and body: "(if g_i s < endIndex e
        then case generateStep e layerOf s of Inl err \<Rightarrow> Some (Inl err)
             | Inr s1 \<Rightarrow> loop e layerOf s1
        else Some (Inr s)) = Some r"
  show "\<forall>s0. reaches e layerOf s0 s \<longrightarrow>
      (case r of Inl err \<Rightarrow> True | Inr s' \<Rightarrow> reaches e layerOf s0 s' \<and> \<not> g_i s' < endIndex e)"
  proof (intro allI impI)
    fix s0
    assume reach: "reaches e layerOf s0 s"
    show "case r of Inl err \<Rightarrow> True | Inr s' \<Rightarrow> reaches e layerOf s0 s' \<and> \<not> g_i s' < endIndex e"
    proof (cases "g_i s < endIndex e")
      case False
      then show ?thesis using body reach by auto
    next
      case True
      show ?thesis
      proof (cases "generateStep e layerOf s")
        case (Inl err)
        have "r = Inl err" using body True Inl by simp
        then show ?thesis by simp
      next
        case (Inr s1)
        have r: "loop e layerOf s1 = Some r"
          using body True Inr by simp
        have "reaches e layerOf s0 s1"
          using reaches_step [OF reach True Inr] .
        then show ?thesis
          using IH [OF r] by simp
      qed
    qed
  qed
qed

lemma reaches_invariant:
  assumes r: "reaches e layerOf s0 s" and start: "Inv s0"
    and step: "\<And>s s1. Inv s \<Longrightarrow> g_i s < endIndex e \<Longrightarrow> generateStep e layerOf s = Inr s1 \<Longrightarrow> Inv s1"
  shows "Inv s"
  using r
proof (induction rule: reaches.induct)
  case reaches_start
  show ?case by (rule start)
next
  case (reaches_step s s1)
  then show ?case using step by blast
qed

lemma generate_reaches:
  assumes g: "generate e w = Some (Inr (cs, w'))"
  shows "(cs = [] \<and> w' = w) \<or>
    (\<exists>s. reaches e (traitValueIdToImageLayers (imageLayers e)) (initialState e w) s \<and>
         cs = g_composites s \<and> w' = g_world s)"
proof (cases "length (traits e) = 0 \<or> length (prefetchTraitValues e) = 0 \<or> length (imageLayers e) = 0")
  case True
  then show ?thesis using g by (auto simp: generate_def split: if_splits)
next
  case False
  let ?lo = "traitValueIdToImageLayers (imageLayers e)"
  obtain s where loop: "generateLoop e ?lo (initialState e w) = Some (Inr s)"
    and out: "cs = g_composites s" "w' = g_world s"
    using g False by (auto simp: generate_def split: option.splits sum.splits)
  have "reaches e ?lo (initialState e w) s"
    using generateLoop_reaches [OF loop] reaches_start [of e ?lo "initialState e w"] by auto
  then show ?thesis using out by blast
qed

text \<open>
  Two batches of a run over the always-unique trait \<open>U\<close>, evaluated: the first produces
  both items from the pool \<open>One\<close>, \<open>Two\<close> on the empty store; the other is a batch of one
  item started on the store that holds the composite with \<open>One\<close>, its pool read as \<open>Two\<close>
  alone.
\<close>

lemma envU_generate:
  "generate envU world0 = Some (Inr (resultU,
     \<lparr>csprngCalls = 0, mathRandomCalls = 2, store = resultU\<rparr>))"
  by (simp add: generate_def generateLoop.simps generateStep_def initialState_def
     generateArtworkForItem_def drawUnused.simps [of _ _ 20] numRetries_def envU_def
     resultU_def compositeU_def uOne_def uTwo_def nth_opt_def atFloor_def roundD_0
     prefetchTraitValues_def ex_defs randomValue_def
     traitsHash_def isUniqueTraitsHash_def Let_def
     attachImageLayer_def traitValueIdToImageLayers_def sortTraitValuePairs_def
     sortedImageLayersInjectingCompanions_def orderedImageLayerPairs_def
     imageLayerPairs_def emitPair_def compositeImages_def List.map_filter_simps create_def
     downloadPathForImageLayer_def layerDownloadPath_def projectDownloadPath_def)

lemma envV_generate:
  "generate envV worldV = Some (Inr ([compositeU uTwo (mkLayer ''L2'' ''Two'')],
     \<lparr>csprngCalls = 0, mathRandomCalls = 2, store = resultU\<rparr>))"
  by (simp add: generate_def generateLoop.simps generateStep_def initialState_def
     generateArtworkForItem_def drawUnused.simps [of _ _ 20] numRetries_def envV_def worldV_def
     resultU_def compositeU_def uOne_def uTwo_def nth_opt_def atFloor_def roundD_0
     prefetchTraitValues_def ex_defs randomValue_def
     traitsHash_def isUniqueTraitsHash_def Let_def
     attachImageLayer_def traitValueIdToImageLayers_def sortTraitValuePairs_def
     sortedImageLayersInjectingCompanions_def orderedImageLayerPairs_def
     imageLayerPairs_def emitPair_def compositeImages_def List.map_filter_simps create_def
     downloadPathForImageLayer_def layerDownloadPath_def projectDownloadPath_def)

section \<open>The batch loop: uniqueness of the persisted fingerprints\<close>

text \<open>
  Claim C1 fails as stated. Any value of trait \<open>A\<close> conflicts with \<open>B = Green\<close> and is
  dropped. The base draws \<open>(Red, Green)\<close> and \<open>(Blue, Green)\<close> have different fingerprints,
  so both pass the uniqueness check, and both are persisted with the fingerprint of
  \<open>(null, Green)\<close>.
\<close>

theorem C1_counterexample:
  "generate envC1 world0 = Some (Inr ([compositeC1, compositeC1],
    \<lparr>csprngCalls = 4, mathRandomCalls = 0, store = [compositeC1, compositeC1]\<rparr>)) \<and>
   \<not> distinct (map ic_traitsHash [compositeC1, compositeC1])"
  by (simp add: generate_def generateLoop.simps generateStep_def initialState_def
     generateArtworkForItem_def drawUnused.simps [of _ _ 20] numRetries_def envC1_def compositeC1_def conflictC1_def
     prefetchTraitValues_def ex_defs randomValue_def randomValue_loop.simps [of _ _ _ 0] randomNumber_def maxAttempts_def
     TRAITVALUES_RARITY_MAX_PRECISION_def traitsHash_def isUniqueTraitsHash_def Let_def
     resolveConflict_def attachImageLayer_def traitValueIdToImageLayers_def sortTraitValuePairs_def
     sortedImageLayersInjectingCompanions_def orderedImageLayerPairs_def
        imageLayerPairs_def emitPair_def compositeImages_def List.map_filter_simps create_def
      downloadPathForImageLayer_def layerDownloadPath_def projectDownloadPath_def doubleton_eq_iff
      round_examples)

lemma persistedDistinct_step:
  assumes nc: "conflicts e = []" and inv: "persistedDistinct w s"
    and step: "generateStep e layerOf s = Inr s1"
  shows "persistedDistinct w s1"
proof -
  have "(g_i s1 = g_i s \<and> g_traitValues s1 = g_traitValues s \<and>
          g_composites s1 = g_composites s \<and> store (g_world s1) = store (g_world s)) \<or>
         (\<exists>c. producedFrom e (g_traitValues s) (g_world s) c \<and> g_i s1 = Suc (g_i s) \<and>
              g_composites s1 = g_composites s @ [c] \<and>
              store (g_world s1) = store (g_world s) @ [c] \<and>
              removeUsedAlwaysUniqueTraitValues (traits e) (g_traitValues s) c =
                Inr (g_traitValues s1))"
    using generateStep_result [OF step] .
  moreover have i1: "store (g_world s) = store w @ g_composites s"
    and i2: "distinct (map ic_traitsHash (store (g_world s)))"
    using inv unfolding persistedDistinct_def by blast+
  ultimately show ?thesis
  proof (elim disjE exE conjE)
    assume a: "g_composites s1 = g_composites s" "store (g_world s1) = store (g_world s)"
    have "store (g_world s1) = store w @ g_composites s1"
      by (simp only: a i1)
    moreover have "distinct (map ic_traitsHash (store (g_world s1)))"
      by (simp only: a i2)
    ultimately show ?thesis by (simp only: persistedDistinct_def)
  next
    fix c
    assume c: "producedFrom e (g_traitValues s) (g_world s) c"
      "g_composites s1 = g_composites s @ [c]" "store (g_world s1) = store (g_world s) @ [c]"
    have fresh: "ic_traitsHash c \<notin> set (map ic_traitsHash (store (g_world s)))"
      using c(1) nc by (simp add: producedFrom_def isUniqueTraitsHash_def)
    have "store (g_world s1) = store w @ g_composites s1"
      by (simp only: c(2,3) i1 append_assoc)
    moreover have "distinct (map ic_traitsHash (store (g_world s1)))"
      using fresh i2 by (simp add: c(3))
    ultimately show ?thesis by (simp only: persistedDistinct_def)
  qed
qed

text \<open>
  Claim C1, amended. When the run has no conflicts, so that resolution leaves every draw
  as it was, the composites persisted in the run's scope keep pairwise distinct
  \<open>traitsHash\<close> values: this holds in every state the loop passes through and for the
  result of \<^verbatim>\<open>generate\<close>, whose store is the earlier store followed by the returned
  composites. (With conflicts only the fingerprint of the unresolved draw is checked.)
\<close>

theorem C1_distinct_hashes_without_conflicts:
  assumes nc: "conflicts e = []" and d0: "distinct (map ic_traitsHash (store w))"
  shows "(\<forall>s. reaches e layerOf (initialState e w) s \<longrightarrow> persistedDistinct w s) \<and>
    (\<forall>cs w'. generate e w = Some (Inr (cs, w')) \<longrightarrow>
       store w' = store w @ cs \<and> distinct (map ic_traitsHash (store w')))"
proof -
  have start: "persistedDistinct w (initialState e w)"
    using d0 by (simp add: persistedDistinct_def initialState_def)
  have inv: "persistedDistinct w s" if "reaches e lo (initialState e w) s" for lo s
    using that start persistedDistinct_step [OF nc] by (rule reaches_invariant)
  have fin: "store w' = store w @ cs \<and> distinct (map ic_traitsHash (store w'))"
    if g: "generate e w = Some (Inr (cs, w'))" for cs w'
  proof -
    have "(cs = [] \<and> w' = w) \<or>
      (\<exists>s. reaches e (traitValueIdToImageLayers (imageLayers e)) (initialState e w) s \<and>
         cs = g_composites s \<and> w' = g_world s)"
      using generate_reaches [OF g] .
    then show ?thesis
    proof (elim disjE exE conjE)
      assume "cs = []" "w' = w"
      then show ?thesis using d0 by simp
    next
      fix s
      assume r: "reaches e (traitValueIdToImageLayers (imageLayers e)) (initialState e w) s"
        and o: "cs = g_composites s" "w' = g_world s"
      have "persistedDistinct w s" using inv [OF r] .
      then show ?thesis unfolding o persistedDistinct_def by blast
    qed
  qed
  show ?thesis
    using inv fin by blast
qed

theorem C1_distinct_hashes_without_conflicts_witness:
  "generate envU world0 =
     Some (Inr (resultU, \<lparr>csprngCalls = 0, mathRandomCalls = 2, store = resultU\<rparr>)) \<and>
   store \<lparr>csprngCalls = 0, mathRandomCalls = 2, store = resultU\<rparr> = store world0 @ resultU \<and>
   distinct (map ic_traitsHash (store \<lparr>csprngCalls = 0, mathRandomCalls = 2, store = resultU\<rparr>))"
proof -
  have h: "conflicts envU = []" "distinct (map ic_traitsHash (store world0))"
    by (simp_all add: envU_def mkEnv_def world0_def)
  show ?thesis
    using C1_distinct_hashes_without_conflicts [OF h, of "traitValueIdToImageLayers (imageLayers envU)"] envU_generate by blast
qed

section \<open>The batch loop: always-unique traits\<close>

lemma prefetch_lookup:
  "distinct (map t_id ts) \<Longrightarrow>
   map_of (fold (\<lambda>t d. AList.update (t_id t) (f t) d) ts d0) k =
     (case find (\<lambda>t. t_id t = k) ts of None \<Rightarrow> map_of d0 k | Some t \<Rightarrow> Some (f t))"
proof (induction ts arbitrary: d0)
  case Nil
  show ?case by simp
next
  case (Cons t ts)
  have d: "distinct (map t_id ts)" and fresh: "t_id t \<notin> t_id ` set ts"
    using Cons.prems by simp_all
  show ?case
  proof (cases "t_id t = k")
    case True
    have "\<forall>x\<in>set ts. t_id x \<noteq> k"
      using fresh True by (metis imageI)
    then have "find (\<lambda>t. t_id t = k) ts = None"
      by (simp add: find_None_iff)
    then show ?thesis
      using Cons.IH [OF d, of "AList.update (t_id t) (f t) d0"] True
      by (simp add: update_conv')
  next
    case False
    then show ?thesis
      using Cons.IH [OF d, of "AList.update (t_id t) (f t) d0"]
      by (simp add: update_conv' split: option.splits)
  qed
qed

lemma find_unique:
  "distinct (map key ps) \<Longrightarrow> p \<in> set ps \<Longrightarrow> find (\<lambda>q. key q = key p) ps = Some p"
  by (induction ps) (auto simp: image_iff)

lemma map_filter_unique:
  "distinct (map key ps) \<Longrightarrow> p \<in> set ps \<Longrightarrow>
   List.map_filter (\<lambda>q. if key q = key p then f q else None) ps =
     (case f p of None \<Rightarrow> [] | Some x \<Rightarrow> [x])"
proof (induction ps)
  case Nil
  then show ?case by simp
next
  case (Cons a ps)
  have none: "List.map_filter (\<lambda>q. if key q = k then f q else None) qs = []"
    if "k \<notin> key ` set qs" for k qs
    using that by (induction qs) (auto simp: List.map_filter_simps)
  show ?case
  proof (cases "a = p")
    case True
    have "key p \<notin> key ` set ps" using Cons.prems True by simp
    then show ?thesis
      using True none [of "key p" ps] by (simp add: List.map_filter_simps split: option.splits)
  next
    case False
    then have p: "p \<in> set ps" using Cons.prems by simp
    have "key a \<noteq> key p" using Cons.prems p by (auto simp: image_iff)
    then show ?thesis
      using Cons.IH p Cons.prems by (simp add: List.map_filter_simps)
  qed
qed

lemma removeUsed_frame:
  "removeUsedAlwaysUniqueTraitValues ts d c = Inr d' \<Longrightarrow> k \<notin> t_id ` set ts \<Longrightarrow>
   map_of d' k = map_of d k"
proof (induction ts arbitrary: d)
  case Nil
  then show ?case by simp
next
  case (Cons t ts)
  have k: "k \<noteq> t_id t" "k \<notin> t_id ` set ts" using Cons.prems(2) by auto
  show ?case
  proof (cases "t_isAlwaysUnique t")
    case False
    then show ?thesis using Cons.prems(1) Cons.IH k by simp
  next
    case True
    obtain vs where vs: "map_of d (t_id t) = Some vs"
      using Cons.prems(1) True by (cases "map_of d (t_id t)") auto
    obtain d1 where rest: "removeUsedAlwaysUniqueTraitValues ts d1 c = Inr d'"
      and d1: "d1 = d \<or> (\<exists>l. d1 = AList.update (t_id t) l d)"
      using Cons.prems(1) True vs by (auto simp: Let_def split: option.splits)
    have "map_of d1 k = map_of d k"
      using d1 k(1) by (auto simp: update_conv')
    then show ?thesis
      using Cons.IH [OF rest k(2)] by simp
  qed
qed

lemma removeUsed_lookup:
  "removeUsedAlwaysUniqueTraitValues ts d c = Inr d' \<Longrightarrow> distinct (map t_id ts) \<Longrightarrow>
   t \<in> set ts \<Longrightarrow> t_isAlwaysUnique t \<Longrightarrow>
   \<exists>vs. map_of d (t_id t) = Some vs \<and> map_of d' (t_id t) = Some (splicePool c (t_id t) vs)"
proof (induction ts arbitrary: d)
  case Nil
  then show ?case by simp
next
  case (Cons a ts)
  have dist: "distinct (map t_id ts)" and fresh: "t_id a \<notin> t_id ` set ts"
    using Cons.prems(2) by simp_all
  show ?case
  proof (cases "t = a")
    case True
    obtain vs where vs: "map_of d (t_id a) = Some vs"
      using Cons.prems(1,4) True by (cases "map_of d (t_id a)") auto
    have rest: "removeUsedAlwaysUniqueTraitValues ts
        (case findIndex (\<lambda>v. Some (tv_id v) =
              map_option tv_id (Option.bind (find (\<lambda>traitPair. t_id (trait traitPair) = t_id a)
                 (ic_traits c)) traitValue)) vs of
           None \<Rightarrow> d
         | Some k \<Rightarrow> AList.update (t_id a) (take k vs @ drop (Suc k) vs) d) c = Inr d'"
      using Cons.prems(1,4) True vs by (simp add: Let_def split: option.splits)
    have "map_of d' (t_id a) = Some (splicePool c (t_id a) vs)"
      using removeUsed_frame [OF rest fresh] vs
      by (simp add: splicePool_def update_conv' split: option.splits)
    then show ?thesis using vs True by simp
  next
    case False
    then have t: "t \<in> set ts" using Cons.prems(3) by simp
    then have ne: "t_id t \<noteq> t_id a" using fresh by (metis imageI)
    obtain d1 where rest: "removeUsedAlwaysUniqueTraitValues ts d1 c = Inr d'"
      and d1: "d1 = d \<or> (\<exists>l. d1 = AList.update (t_id a) l d)"
      using Cons.prems(1)
      by (cases "t_isAlwaysUnique a"; cases "map_of d (t_id a)")
        (auto simp: Let_def split: option.splits)
    have same: "map_of d1 (t_id t) = map_of d (t_id t)"
      using d1 ne by (auto simp: update_conv')
    show ?thesis
      using Cons.IH [OF rest dist t Cons.prems(4)] same by simp
  qed
qed

lemma splice_mset:
  assumes "findIndex P vs = Some k"
  shows "mset (map g (take k vs @ drop (Suc k) vs)) + {#g (vs ! k)#} = mset (map g vs)"
proof -
  have k: "k < length vs" using findIndex_Some [OF assms] by simp
  have "vs = take k vs @ vs ! k # drop (Suc k) vs"
    using k by (rule id_take_nth_drop)
  then have "mset (map g vs) = mset (map g (take k vs @ vs ! k # drop (Suc k) vs))"
    by simp
  then show ?thesis by simp
qed

lemma produced_consumes:
  assumes dist: "distinct (map t_id (traits e))" and t: "t \<in> set (traits e)"
    and u: "t_isAlwaysUnique t"
    and prod: "producedFrom e d w c"
    and rem: "removeUsedAlwaysUniqueTraitValues (traits e) d c = Inr d'"
  shows "mset (valueIdsOf (t_id t) c) + mset (poolIds d' (t_id t)) = mset (poolIds d (t_id t))"
proof -
  let ?ps = "ic_traits c"
  let ?key = "\<lambda>q. t_id (trait q)"
  have perm: "mset (map trait ?ps) = mset (traits e)"
    and drawn: "list_all (drawnFrom d) ?ps"
    using prod by (simp_all add: producedFrom_def)
  have "mset (map t_id (map trait ?ps)) = mset (map t_id (traits e))"
    using perm by (metis mset_map)
  then have "distinct (map t_id (map trait ?ps))"
    using dist by (metis mset_eq_imp_distinct_iff)
  then have dk: "distinct (map ?key ?ps)"
    by (simp add: comp_def)
  have "t \<in> set (map trait ?ps)"
    using perm t by (metis mset_eq_setD)
  then obtain p where p: "p \<in> set ?ps" "trait p = t"
    by auto
  have ids: "valueIdsOf (t_id t) c =
      (case map_option tv_id (traitValue p) of None \<Rightarrow> [] | Some x \<Rightarrow> [x])"
    using map_filter_unique [OF dk p(1), of "\<lambda>q. map_option tv_id (traitValue q)"] p(2)
    by (simp add: valueIdsOf_def)
  have fnd: "find (\<lambda>traitPair. t_id (trait traitPair) = t_id t) ?ps = Some p"
    using find_unique [OF dk p(1)] p(2) by simp
  obtain vs where vs: "map_of d (t_id t) = Some vs"
    "map_of d' (t_id t) = Some (splicePool c (t_id t) vs)"
    using removeUsed_lookup [OF rem dist t u] by blast
  have sp: "splicePool c (t_id t) vs =
      (case findIndex (\<lambda>v. Some (tv_id v) = map_option tv_id (traitValue p)) vs of
         None \<Rightarrow> vs | Some k \<Rightarrow> take k vs @ drop (Suc k) vs)"
    by (simp add: splicePool_def fnd)
  show ?thesis
  proof (cases "traitValue p")
    case None
    have "findIndex (\<lambda>v. Some (tv_id v) = map_option tv_id (traitValue p)) vs = None"
      using None by (simp add: findIndex_None_iff)
    then show ?thesis
      using None ids sp vs by (simp add: poolIds_def)
  next
    case (Some v)
    have "drawnFrom d p"
      using drawn p(1) by (simp add: list_all_iff)
    then have v: "v \<in> set vs"
      using Some vs(1) p(2) by (simp add: drawnFrom_def)
    obtain k where k: "findIndex (\<lambda>x. Some (tv_id x) = map_option tv_id (traitValue p)) vs = Some k"
      using v Some
      by (cases "findIndex (\<lambda>x. Some (tv_id x) = map_option tv_id (traitValue p)) vs")
        (auto simp: findIndex_None_iff)
    have at: "tv_id (vs ! k) = tv_id v"
      using findIndex_Some [OF k] Some by simp
    have "mset (map tv_id (take k vs @ drop (Suc k) vs)) + {#tv_id (vs ! k)#} = mset (map tv_id vs)"
      using splice_mset [OF k] .
    then have "{#tv_id v#} + mset (map tv_id (splicePool c (t_id t) vs)) = mset (map tv_id vs)"
      using at k sp by (simp add: add.commute)
    then show ?thesis
      using Some ids vs by (simp add: poolIds_def)
  qed
qed

lemma storeAppended_step:
  assumes inv: "storeAppended w s" and step: "generateStep e layerOf s = Inr s1"
  shows "storeAppended w s1"
proof -
  have i: "store (g_world s) = store w @ g_composites s"
    using inv by (simp only: storeAppended_def)
  have "(g_i s1 = g_i s \<and> g_traitValues s1 = g_traitValues s \<and>
          g_composites s1 = g_composites s \<and> store (g_world s1) = store (g_world s)) \<or>
         (\<exists>c. producedFrom e (g_traitValues s) (g_world s) c \<and> g_i s1 = Suc (g_i s) \<and>
              g_composites s1 = g_composites s @ [c] \<and>
              store (g_world s1) = store (g_world s) @ [c] \<and>
              removeUsedAlwaysUniqueTraitValues (traits e) (g_traitValues s) c =
                Inr (g_traitValues s1))"
    using generateStep_result [OF step] .
  then show ?thesis
  proof (elim disjE exE conjE)
    assume a: "g_composites s1 = g_composites s" "store (g_world s1) = store (g_world s)"
    show ?thesis
      by (simp only: storeAppended_def a i)
  next
    fix c
    assume c: "g_composites s1 = g_composites s @ [c]"
      "store (g_world s1) = store (g_world s) @ [c]"
    show ?thesis
      by (simp only: storeAppended_def c i append_assoc)
  qed
qed

lemma storeAppended_start: "storeAppended w (initialState e w)"
  by (simp add: storeAppended_def initialState_def)

lemma poolAccounted_step:
  assumes dist: "distinct (map t_id (traits e))" and t: "t \<in> set (traits e)"
    and u: "t_isAlwaysUnique t"
    and inv: "poolAccounted allIds t s"
    and step: "generateStep e layerOf s = Inr s1"
  shows "poolAccounted allIds t s1"
proof -
  have acc: "mset (usedIds (t_id t) (store (g_world s))) +
      mset (poolIds (g_traitValues s) (t_id t)) \<subseteq># mset allIds"
    using inv by (simp only: poolAccounted_def)
  have "(g_i s1 = g_i s \<and> g_traitValues s1 = g_traitValues s \<and>
          g_composites s1 = g_composites s \<and> store (g_world s1) = store (g_world s)) \<or>
         (\<exists>c. producedFrom e (g_traitValues s) (g_world s) c \<and> g_i s1 = Suc (g_i s) \<and>
              g_composites s1 = g_composites s @ [c] \<and>
              store (g_world s1) = store (g_world s) @ [c] \<and>
              removeUsedAlwaysUniqueTraitValues (traits e) (g_traitValues s) c =
                Inr (g_traitValues s1))"
    using generateStep_result [OF step] .
  then show ?thesis
  proof (elim disjE exE conjE)
    assume a: "g_traitValues s1 = g_traitValues s" "store (g_world s1) = store (g_world s)"
    show ?thesis
      unfolding poolAccounted_def a by (rule acc)
  next
    fix c
    assume prod: "producedFrom e (g_traitValues s) (g_world s) c"
      and st: "store (g_world s1) = store (g_world s) @ [c]"
      and rem: "removeUsedAlwaysUniqueTraitValues (traits e) (g_traitValues s) c =
          Inr (g_traitValues s1)"
    have cons: "mset (valueIdsOf (t_id t) c) + mset (poolIds (g_traitValues s1) (t_id t)) =
        mset (poolIds (g_traitValues s) (t_id t))"
      using produced_consumes [OF dist t u prod rem] .
    have "usedIds (t_id t) (store (g_world s1)) =
        usedIds (t_id t) (store (g_world s)) @ valueIdsOf (t_id t) c"
      by (simp add: usedIds_def st)
    then have "mset (usedIds (t_id t) (store (g_world s1))) +
          mset (poolIds (g_traitValues s1) (t_id t)) =
        mset (usedIds (t_id t) (store (g_world s))) +
          (mset (valueIdsOf (t_id t) c) + mset (poolIds (g_traitValues s1) (t_id t)))"
      by (simp add: add.assoc)
    then show ?thesis
      unfolding poolAccounted_def using cons acc by simp
  qed
qed

lemma poolAccounted_start:
  assumes dist: "distinct (map t_id (traits e))" and t: "t \<in> set (traits e)"
    and con: "poolContract allIds t e w"
  shows "poolAccounted allIds t (initialState e w)"
proof -
  have "find (\<lambda>x. t_id x = t_id t) (traits e) = Some t"
    using find_unique [OF dist t] .
  then have "map_of (prefetchTraitValues e) (t_id t) = Some (traitValuesAll e t)"
    using prefetch_lookup [OF dist, of "traitValuesAll e" "[]" "t_id t"]
    by (simp add: prefetchTraitValues_def)
  then show ?thesis
    using con by (simp add: poolAccounted_def poolContract_def initialState_def poolIds_def)
qed

lemma nonempty_le_concat:
  "length (filter (\<lambda>c. f c \<noteq> []) cs) \<le> length (concat (map f cs))"
proof (induction cs)
  case Nil
  show ?case by simp
next
  case (Cons c cs)
  have "f c \<noteq> [] \<Longrightarrow> 1 \<le> length (f c)"
    by (cases "f c") simp_all
  then show ?case using Cons.IH by auto
qed

lemma distinct_of_submset:
  assumes "mset xs \<subseteq># mset ys" and "distinct ys"
  shows "distinct xs"
proof -
  have le: "count (mset xs) a \<le> 1" for a
  proof -
    have "count (mset xs) a \<le> count (mset ys) a"
      using assms(1) by (rule mset_subset_eq_count)
    also have "\<dots> \<le> 1"
      using assms(2) by (simp add: distinct_count_atmost_1)
    finally show ?thesis .
  qed
  have "count (mset xs) a = (if a \<in> set xs then 1 else 0)" for a
  proof (cases "a \<in> set xs")
    case True
    then have "0 < count (mset xs) a" by simp
    with le [of a] have "count (mset xs) a = 1" by linarith
    then show ?thesis using True by simp
  next
    case False
    then show ?thesis by (simp add: count_mset_0_iff)
  qed
  then show ?thesis
    by (simp only: distinct_count_atmost_1) simp
qed

lemma poolAccounted_respected:
  assumes da: "distinct allIds" and acc: "poolAccounted allIds t s"
  shows "alwaysUniqueRespected allIds t s"
proof -
  let ?used = "usedIds (t_id t) (store (g_world s))"
  let ?pool = "poolIds (g_traitValues s) (t_id t)"
  have m: "mset (?used @ ?pool) \<subseteq># mset allIds"
    using acc by (simp add: poolAccounted_def)
  then have "distinct (?used @ ?pool)"
    using da by (rule distinct_of_submset)
  then have a: "distinct ?used" and b: "set ?used \<inter> set ?pool = {}"
    by simp_all
  have "mset ?used \<subseteq># mset (?used @ ?pool)"
    by simp
  then have sub: "mset ?used \<subseteq># mset allIds"
    using m by (rule subset_mset.order_trans)
  then have "size (mset ?used) \<le> size (mset allIds)"
    by (rule size_mset_mono)
  then have "length ?used \<le> length allIds"
    by simp
  moreover have "length (filter (\<lambda>c. valueIdsOf (t_id t) c \<noteq> []) (store (g_world s))) \<le> length ?used"
    unfolding usedIds_def by (rule nonempty_le_concat)
  ultimately have c: "length (filter (\<lambda>c. valueIdsOf (t_id t) c \<noteq> []) (store (g_world s))) \<le>
      length allIds"
    by simp
  show ?thesis
    using a b sub c by (simp add: alwaysUniqueRespected_def)
qed

text \<open>
  What one batch keeps, whatever store it starts on: in every state the loop passes
  through, the store is the store at the start followed by the composites of the batch,
  and the ids used by the store together with the ids left in the pool are ids of the
  trait, each at most once.
\<close>

lemma batch_keeps_pool:
  assumes dist: "distinct (map t_id (traits e))" and t: "t \<in> set (traits e)"
    and u: "t_isAlwaysUnique t" and con: "poolContract allIds t e w"
    and r: "reaches e layerOf (initialState e w) s"
  shows "storeAppended w s \<and> alwaysUniqueRespected allIds t s"
proof -
  have da: "distinct allIds"
    using con by (simp add: poolContract_def)
  have "poolAccounted allIds t s"
    using r poolAccounted_start [OF dist t con] poolAccounted_step [OF dist t u]
    by (rule reaches_invariant)
  then have "alwaysUniqueRespected allIds t s"
    by (rule poolAccounted_respected [OF da])
  moreover have "storeAppended w s"
    using r storeAppended_start storeAppended_step
    by (rule reaches_invariant)
  ultimately show ?thesis by simp
qed

text \<open>
  Claim C5. Let \<open>t\<close> be an always-unique trait of a batch whose traits have distinct
  ids, and let the batch start on a store \<open>w\<close> and a pool that meet the contract of the
  surrounding system for the available values \<open>allIds\<close> of \<open>t\<close>: the ids used by the
  composites persisted so far in the run, and the ids read into the pool, are ids of
  \<open>allIds\<close>, each at most once. Then in every state the batch loop passes through, the
  value ids of \<open>t\<close> that the persisted composites of the run have used - those of the
  batches before and of this batch so far - are no longer in the pool from which the next
  item is drawn, no id is used twice, and at most as many persisted composites carry a
  value of \<open>t\<close> as \<open>t\<close> has available values. When \<^verbatim>\<open>generate\<close> returns, the store is the
  store at the start followed by the returned composites, and the same bounds hold for
  the whole store, so what the next batch needs of the store holds again.
\<close>

theorem C5_always_unique_values_used_once:
  assumes dist: "distinct (map t_id (traits e))" and t: "t \<in> set (traits e)"
    and u: "t_isAlwaysUnique t" and con: "poolContract allIds t e w"
  shows "(\<forall>s. reaches e layerOf (initialState e w) s \<longrightarrow>
       store (g_world s) = store w @ g_composites s \<and> alwaysUniqueRespected allIds t s) \<and>
    (\<forall>cs w'. generate e w = Some (Inr (cs, w')) \<longrightarrow>
       store w' = store w @ cs \<and>
       distinct (usedIds (t_id t) (store w')) \<and>
       mset (usedIds (t_id t) (store w')) \<subseteq># mset allIds \<and>
       length (filter (\<lambda>c. valueIdsOf (t_id t) c \<noteq> []) (store w')) \<le> length allIds)"
proof -
  have inv: "store (g_world s) = store w @ g_composites s \<and> alwaysUniqueRespected allIds t s"
    if r: "reaches e lo (initialState e w) s" for lo s
    using batch_keeps_pool [OF dist t u con r] by (simp add: storeAppended_def)
  have fin: "store w' = store w @ cs \<and>
       distinct (usedIds (t_id t) (store w')) \<and>
       mset (usedIds (t_id t) (store w')) \<subseteq># mset allIds \<and>
       length (filter (\<lambda>c. valueIdsOf (t_id t) c \<noteq> []) (store w')) \<le> length allIds"
    if g: "generate e w = Some (Inr (cs, w'))" for cs w'
  proof -
    have "(cs = [] \<and> w' = w) \<or>
      (\<exists>s. reaches e (traitValueIdToImageLayers (imageLayers e)) (initialState e w) s \<and>
         cs = g_composites s \<and> w' = g_world s)"
      using generate_reaches [OF g] .
    then show ?thesis
    proof (elim disjE exE conjE)
      assume o: "cs = []" "w' = w"
      have "reaches e layerOf (initialState e w) (initialState e w)"
        by (rule reaches_start)
      then have "alwaysUniqueRespected allIds t (initialState e w)"
        using inv by blast
      then show ?thesis
        unfolding o alwaysUniqueRespected_def by (simp add: initialState_def)
    next
      fix s
      assume r: "reaches e (traitValueIdToImageLayers (imageLayers e)) (initialState e w) s"
        and o: "cs = g_composites s" "w' = g_world s"
      have "store (g_world s) = store w @ g_composites s \<and> alwaysUniqueRespected allIds t s"
        using inv [OF r] .
      then show ?thesis unfolding o alwaysUniqueRespected_def by blast
    qed
  qed
  show ?thesis
    using inv fin by blast
qed

theorem C5_always_unique_values_used_once_witness:
  "poolContract [''One'', ''Two''] traitU envV worldV \<and>
   generate envV worldV = Some (Inr ([compositeU uTwo (mkLayer ''L2'' ''Two'')],
     \<lparr>csprngCalls = 0, mathRandomCalls = 2, store = resultU\<rparr>)) \<and>
   resultU = store worldV @ [compositeU uTwo (mkLayer ''L2'' ''Two'')] \<and>
   distinct (usedIds (t_id traitU) resultU) \<and>
   mset (usedIds (t_id traitU) resultU) \<subseteq># mset [''One'', ''Two''] \<and>
   length (filter (\<lambda>c. valueIdsOf (t_id traitU) c \<noteq> []) resultU) \<le> length [''One'', ''Two'']"
proof -
  have h: "distinct (map t_id (traits envV))" "traitU \<in> set (traits envV)"
    "t_isAlwaysUnique traitU"
    by (simp_all add: envV_def mkEnv_def traitU_def mkTrait_def)
  have c: "poolContract [''One'', ''Two''] traitU envV worldV"
    by (simp add: poolContract_def usedIds_def valueIdsOf_def List.map_filter_simps envV_def
        worldV_def mkEnv_def compositeU_def mkPair_def traitU_def mkTrait_def uOne_def uTwo_def
        mkValue_def)
  show ?thesis
    using C5_always_unique_values_used_once [OF h c,
        of "traitValueIdToImageLayers (imageLayers envV)"] envV_generate c
    by auto
qed

end
